theory Spec2Isabelle
  imports Complex_Main "HOL-Library.Word" "HOL-Library.Multiset" "HOL-Library.List_Lexorder"
begin

unbundle bit_operations_syntax

section \<open>Keys and values\<close>

text \<open>
  Keys and values are those of the table library the engine is built on.  A key is a
  user key (a byte string) with a version; \<open>Compare\<close> orders keys by user key
  ascending (\<open>bytes.Compare\<close>: unsigned bytes, lexicographic, a proper prefix first)
  and, among equal user keys, by version descending.  The zero value of a key has an
  empty user key, and \<open>IsEmpty\<close> tests exactly that.
\<close>

type_synonym byte = "8 word"
type_synonym bytes = "byte list"

datatype Key = Key (UserKey: bytes) (Version: "64 word")

record ValueStruct =
  Meta :: byte
  UserMeta :: bytes
  Value :: bytes
  VVersion :: "64 word"

fun bytesCompare :: "bytes \<Rightarrow> bytes \<Rightarrow> int" where
  "bytesCompare [] [] = 0"
| "bytesCompare [] (y # ys) = -1"
| "bytesCompare (x # xs) [] = 1"
| "bytesCompare (x # xs) (y # ys) =
     (if x < y then -1 else if y < x then 1 else bytesCompare xs ys)"

definition Compare :: "Key \<Rightarrow> Key \<Rightarrow> int" where
  "Compare k k2 =
     (let cmp = bytesCompare (UserKey k) (UserKey k2) in
      if cmp \<noteq> 0 then cmp
      else if Version k > Version k2 then -1
      else if Version k < Version k2 then 1
      else 0)"

definition IsEmpty :: "Key \<Rightarrow> bool" where
  "IsEmpty k = (length (UserKey k) = 0)"

definition SameUserKey :: "Key \<Rightarrow> Key \<Rightarrow> bool" where
  "SameUserKey k k2 = (UserKey k = UserKey k2)"

definition Reset :: "Key" where
  "Reset = Key [] 0"

definition KeyLen :: "Key \<Rightarrow> int" where
  "KeyLen k = int (length (UserKey k)) + 8"

text \<open>
  Modelled from the spec: \<open>isDeleted\<close> and the bit it tests are not among the
  sources.  The meta byte of a value carries a tombstone bit; it is the lowest bit, as
  \<open>BitDelete\<close> of the table library.
\<close>

definition bitDelete :: byte where
  "bitDelete = 1"

definition isDeleted :: "byte \<Rightarrow> bool" where
  "isDeleted meta = (meta AND bitDelete \<noteq> 0)"

type_synonym entry = "Key \<times> ValueStruct"

section \<open>Write batches\<close>

text \<open>
  A write batch holds, per column family, the entries appended so far; the entries
  are allocated from an arena that grows by \<open>append\<close>.  An index out of range panics.
  \<open>EncodedSize\<close> of a value and the node-size estimate of the mem-table belong to
  the libraries and are parameters here, as is the slack capacity \<open>grow\<close> that
  \<open>append\<close> reserves beyond the one appended slot.
\<close>

datatype 'a outcome = Panic | Return 'a

record CFConfig =
  Managed :: bool

type_synonym mem_entry = "bytes \<times> ValueStruct"

record WriteBatch =
  cfConfs :: "CFConfig list"
  entries :: "mem_entry list list"
  estimatedSize :: "64 word"
  properties :: "string \<rightharpoonup> bytes"
  entryArena :: "mem_entry list"
  entryArenaIdx :: nat

definition zeroValueStruct :: ValueStruct where
  "zeroValueStruct = \<lparr>Meta = 0, UserMeta = [], Value = [], VVersion = 0\<rparr>"

definition allocEntry ::
  "nat \<Rightarrow> WriteBatch \<Rightarrow> bytes \<Rightarrow> ValueStruct \<Rightarrow> (mem_entry \<times> WriteBatch) outcome" where
  "allocEntry grow wb key val =
     (let arena = (if length (entryArena wb) \<le> entryArenaIdx wb
                   then entryArena wb @ replicate (Suc grow) ([], zeroValueStruct)
                   else entryArena wb)
      in if entryArenaIdx wb < length arena
         then Return ((key, val),
                wb\<lparr>entryArena := arena[entryArenaIdx wb := (key, val)],
                   entryArenaIdx := entryArenaIdx wb + 1\<rparr>)
         else Panic)"

definition Put ::
  "(ValueStruct \<Rightarrow> 32 word) \<Rightarrow> int \<Rightarrow> nat \<Rightarrow> WriteBatch \<Rightarrow> int \<Rightarrow> bytes \<Rightarrow> ValueStruct
     \<Rightarrow> (string option \<times> WriteBatch) outcome" where
  "Put EncodedSize EstimateNodeSize grow wb cf key val =
     (if cf < 0 \<or> nat cf \<ge> length (cfConfs wb) then Panic
      else if Managed (cfConfs wb ! nat cf) \<and> VVersion val = 0
        then Return (Some ''version is zero for managed CF'', wb)
      else if \<not> Managed (cfConfs wb ! nat cf) \<and> VVersion val \<noteq> 0
        then Return (Some ''version is not zero for non-managed CF'', wb)
      else if nat cf \<ge> length (entries wb) then Panic
      else (case allocEntry grow wb key val of
              Panic \<Rightarrow> Panic
            | Return (e, wb1) \<Rightarrow>
                Return (None,
                  wb1\<lparr>entries := (entries wb1)[nat cf := entries wb1 ! nat cf @ [e]],
                      estimatedSize := estimatedSize wb1 +
                        word_of_int (int (length key) + uint (EncodedSize val) + EstimateNodeSize)\<rparr>)))"

definition Delete ::
  "int \<Rightarrow> nat \<Rightarrow> WriteBatch \<Rightarrow> byte \<Rightarrow> bytes \<Rightarrow> 64 word
     \<Rightarrow> (string option \<times> WriteBatch) outcome" where
  "Delete EstimateNodeSize grow wb cf key version =
     (if unat cf \<ge> length (cfConfs wb) then Panic
      else if Managed (cfConfs wb ! unat cf) \<and> version = 0
        then Return (Some ''version is zero for managed CF'', wb)
      else if \<not> Managed (cfConfs wb ! unat cf) \<and> version \<noteq> 0
        then Return (Some ''version is not zero for non-managed CF'', wb)
      else if unat cf \<ge> length (entries wb) then Panic
      else (case allocEntry grow wb key
                   (zeroValueStruct\<lparr>Meta := bitDelete, VVersion := version\<rparr>) of
              Panic \<Rightarrow> Panic
            | Return (e, wb1) \<Rightarrow>
                Return (None,
                  wb1\<lparr>entries := (entries wb1)[unat cf := entries wb1 ! unat cf @ [e]],
                      estimatedSize := estimatedSize wb1 +
                        word_of_int (int (length key) + EstimateNodeSize)\<rparr>)))"

definition NewWriteBatch :: "CFConfig list \<Rightarrow> WriteBatch" where
  "NewWriteBatch cfs =
     \<lparr>cfConfs = cfs, entries = replicate (length cfs) [], estimatedSize = 0,
      properties = Map.empty, entryArena = [], entryArenaIdx = 0\<rparr>"

text \<open>
  The shape every batch made by \<open>NewWriteBatch\<close> has and every operation keeps: one
  entry list per configured column family, and an arena index inside the arena.
\<close>

definition wb_inv :: "WriteBatch \<Rightarrow> bool" where
  "wb_inv wb = (length (entries wb) = length (cfConfs wb) \<and>
                entryArenaIdx wb \<le> length (entryArena wb))"

section \<open>Tables and compaction definitions\<close>

text \<open>
  A table is an immutable sorted run with an id, its smallest and biggest key and its
  size.  Whether a table holds a key inside a range (\<open>HasOverlap\<close> of the table
  library, which seeks in the table) is a parameter \<open>hasOverlap\<close> of the functions that
  ask.
\<close>

record Table =
  ID :: "64 word"
  Smallest :: Key
  Biggest :: Key
  Size :: int

type_synonym Decision = int

definition DecisionKeep :: Decision where "DecisionKeep = 0"
definition DecisionMarkTombstone :: Decision where "DecisionMarkTombstone = 1"
definition DecisionDrop :: Decision where "DecisionDrop = 2"

type_synonym CompactionFilter = "int \<Rightarrow> bytes \<Rightarrow> bytes \<Rightarrow> bytes \<Rightarrow> Decision"

text \<open>
  The fields of \<open>CompactDef\<close> that the functions below read or write.
  \<open>AllocIDFunc\<close>, when present, gives the id returned by its \<open>n\<close>-th call.
\<close>

record CompactDef =
  CF :: int
  Level :: int
  Top :: "Table list"
  Bot :: "Table list"
  SkippedTbls :: "Table list"
  SafeTS :: "64 word"
  Filter :: "CompactionFilter option"
  HasOverlap :: bool
  MaxTableSize :: int
  AllocIDFunc :: "(nat \<Rightarrow> 64 word) option"
  InMemory :: bool

definition minSkippedTableSize :: int where
  "minSkippedTableSize = 1024 * 1024"

fun addIfOverlap ::
  "(Table \<Rightarrow> Key \<Rightarrow> Key \<Rightarrow> bool \<Rightarrow> bool) \<Rightarrow> CompactDef \<Rightarrow> Table \<Rightarrow> Table list
     \<Rightarrow> CompactDef \<times> bool" where
  "addIfOverlap hasOverlap cd t [] = (cd, False)"
| "addIfOverlap hasOverlap cd t (topTbl # tops) =
     (if hasOverlap topTbl (Smallest t) (Biggest t) True
      then (cd\<lparr>Bot := Bot cd @ [t]\<rparr>, True)
      else addIfOverlap hasOverlap cd t tops)"

fun fillBottomTables ::
  "(Table \<Rightarrow> Key \<Rightarrow> Key \<Rightarrow> bool \<Rightarrow> bool) \<Rightarrow> CompactDef \<Rightarrow> Table list \<Rightarrow> CompactDef" where
  "fillBottomTables hasOverlap cd [] = cd"
| "fillBottomTables hasOverlap cd (t # overlappingTables) =
     (case addIfOverlap hasOverlap cd t (Top cd) of
        (cd1, added) \<Rightarrow>
          fillBottomTables hasOverlap
            (if \<not> added
             then (if Size t \<ge> minSkippedTableSize
                   then cd1\<lparr>SkippedTbls := SkippedTbls cd1 @ [t]\<rparr>
                   else cd1\<lparr>Bot := Bot cd1 @ [t]\<rparr>)
             else cd1)
            overlappingTables)"

definition moveDown :: "CompactDef \<Rightarrow> bool" where
  "moveDown cd = (Level cd > 0 \<and> length (Bot cd) = 0 \<and> length (SkippedTbls cd) = 0)"

section \<open>The compaction executor\<close>

text \<open>
  \<open>CompactTables\<close> reads the merge iterator built over the top and bottom tables.
  The iterator belongs to the table library; the model takes the sequence of entries it
  yields.  The size estimates of the table builder and of a value are parameters, and so
  is the outcome of each file operation: opening the \<open>n\<close>-th output file, finishing
  it, and putting it to object storage when a client is configured.  The read and write
  counters, which no decision depends on, are left out.
\<close>

datatype comp_error = OpenFileError | FinishError | S3PutError

record exec_env =
  encodedSize :: "ValueStruct \<Rightarrow> int"
  estimateSize :: "entry list \<Rightarrow> int"
  openFails :: "nat \<Rightarrow> bool"
  finishFails :: "nat \<Rightarrow> bool"
  s3c :: "(nat \<Rightarrow> bool) option"

record BuildResult =
  FileName :: "64 word option"
  rSmallest :: Key
  rBiggest :: Key
  Rows :: "entry list"

record loop_state =
  lastKey :: Key
  skipKey :: Key
  builder :: "entry list"
  skippedTbls :: "Table list"

datatype step = Continue loop_state | Break loop_state

definition shouldFinishFile :: "Key \<Rightarrow> int \<Rightarrow> int \<Rightarrow> bool" where
  "shouldFinishFile lk currentSize maxSize =
     (if IsEmpty lk then False else \<not> IsEmpty lk \<and> currentSize > maxSize)"

fun skipOver :: "Key \<Rightarrow> Table list \<Rightarrow> Table list" where
  "skipOver key [] = []"
| "skipOver key (t # ts) = (if Compare key (Biggest t) > 0 then skipOver key ts else t # ts)"

definition overSkipTables :: "Key \<Rightarrow> Table list \<Rightarrow> Table list \<times> bool" where
  "overSkipTables key skippedTables =
     (let rest = skipOver key skippedTables
      in (rest, length skippedTables - length rest > 0))"

text \<open>
  \<open>step\<close> is one pass through the body of the inner loop for the entry under the
  iterator: it goes on to the next entry or breaks out of the loop, leaving the
  iterator where it is.  \<open>gcStep\<close> is the last part of the body: the version rule, the
  tombstone rule, the filter and the addition to the builder.
\<close>

definition gcStep :: "CompactDef \<Rightarrow> loop_state \<Rightarrow> Key \<Rightarrow> ValueStruct \<Rightarrow> loop_state" where
  "gcStep cd st key vs =
     (if Version key \<le> SafeTS cd then
        (let st1 = st\<lparr>skipKey := key\<rparr> in
         if isDeleted (Meta vs) then
           (if \<not> HasOverlap cd then st1
            else st1\<lparr>builder := builder st1 @ [(key, vs)]\<rparr>)
         else
           (case Filter cd of
              None \<Rightarrow> st1\<lparr>builder := builder st1 @ [(key, vs)]\<rparr>
            | Some f \<Rightarrow>
                (let d = f (CF cd) (UserKey key) (Value vs) (UserMeta vs) in
                 if d = DecisionMarkTombstone then
                   (if HasOverlap cd
                    then st1\<lparr>builder := builder st1 @ [(key, zeroValueStruct\<lparr>Meta := bitDelete\<rparr>)]\<rparr>
                    else st1)
                 else if d = DecisionDrop then st1
                 else st1\<lparr>builder := builder st1 @ [(key, vs)]\<rparr>)))
      else st\<lparr>builder := builder st @ [(key, vs)]\<rparr>)"

definition step :: "exec_env \<Rightarrow> CompactDef \<Rightarrow> loop_state \<Rightarrow> entry \<Rightarrow> step" where
  "step E cd st e =
     (case e of (key, vs) \<Rightarrow>
        let kvSize = encodedSize E vs + KeyLen key in
        if \<not> IsEmpty (skipKey st) \<and> SameUserKey key (skipKey st) then Continue st
        else
          let st1 = (if \<not> IsEmpty (skipKey st) then st\<lparr>skipKey := Reset\<rparr> else st) in
          if \<not> SameUserKey key (lastKey st1) then
            (case (if length (skippedTbls st1) > 0
                   then overSkipTables key (skippedTbls st1)
                   else (skippedTbls st1, False)) of
               (tbls, over) \<Rightarrow>
                 let st2 = st1\<lparr>skippedTbls := tbls\<rparr> in
                 if over \<and> builder st2 \<noteq> [] then Break st2
                 else if shouldFinishFile (lastKey st2)
                           (estimateSize E (builder st2) + kvSize) (MaxTableSize cd)
                 then Break st2
                 else Continue (gcStep cd (st2\<lparr>lastKey := key\<rparr>) key vs))
          else Continue (gcStep cd st1 key vs))"

fun inner_loop ::
  "exec_env \<Rightarrow> CompactDef \<Rightarrow> loop_state \<Rightarrow> entry list \<Rightarrow> loop_state \<times> entry list" where
  "inner_loop E cd st [] = (st, [])"
| "inner_loop E cd st (e # es) =
     (case step E cd st e of
        Continue st' \<Rightarrow> inner_loop E cd st' es
      | Break st' \<Rightarrow> (st', e # es))"

text \<open>
  After a break the outer loop starts a new file with an empty builder and an empty last
  key; the first entry then never breaks again, so every round of the outer loop consumes
  at least one entry and the loop ends.
\<close>

lemma inner_loop_length: "length (snd (inner_loop E cd st es)) \<le> length es"
  by (induction es arbitrary: st) (auto split: step.splits intro: le_SucI)

lemma step_fresh_Continue:
  "builder st = [] \<Longrightarrow> lastKey st = Reset \<Longrightarrow> \<exists>st'. step E cd st e = Continue st'"
  by (cases e) (auto simp: step_def Let_def shouldFinishFile_def IsEmpty_def Reset_def
      split: prod.splits)

lemma inner_loop_progress:
  assumes "builder st = []" "lastKey st = Reset" "es \<noteq> []"
  shows "length (snd (inner_loop E cd st es)) < length es"
proof -
  obtain e es' where es: "es = e # es'" using assms(3) by (cases es) auto
  obtain st' where "step E cd st e = Continue st'"
    using step_fresh_Continue[OF assms(1,2)] by blast
  then show ?thesis using inner_loop_length[of E cd st' es'] by (simp add: es)
qed

function outer_loop ::
  "exec_env \<Rightarrow> CompactDef \<Rightarrow> nat \<Rightarrow> loop_state \<Rightarrow> BuildResult list \<Rightarrow> entry list
     \<Rightarrow> comp_error + BuildResult list" where
  "outer_loop E cd n st buildResults es =
     (if es = [] then Inr buildResults
      else
        let filename = map_option (\<lambda>f. f n) (AllocIDFunc cd) in
        if \<not> InMemory cd \<and> openFails E n then Inl OpenFileError
        else
          (case inner_loop E cd (st\<lparr>lastKey := Reset, builder := []\<rparr>) es of
             (st', rest) \<Rightarrow>
               if builder st' = [] then outer_loop E cd (Suc n) st' buildResults rest
               else if finishFails E n then Inl FinishError
               else if (case s3c E of None \<Rightarrow> False | Some putFails \<Rightarrow> putFails n)
                 then Inl S3PutError
               else outer_loop E cd (Suc n) st'
                      (buildResults @
                         [\<lparr>FileName = filename, rSmallest = fst (hd (builder st')),
                           rBiggest = fst (last (builder st')), Rows = builder st'\<rparr>])
                      rest))"
  by pat_completeness auto
termination
proof (relation "measure (\<lambda>(E, cd, n, st, rs, es). length es)")
  show "wf (measure (\<lambda>(E, cd, n, st, rs, es). length es))" by simp
next
  fix E cd n st buildResults es x xa y
  assume "es \<noteq> []" and "(xa, y) = inner_loop E cd (st\<lparr>lastKey := Reset, builder := []\<rparr>) es"
  then have "length y < length es"
    using inner_loop_progress[of "st\<lparr>lastKey := Reset, builder := []\<rparr>" es E cd]
    by (metis loop_state.select_convs(1,3) loop_state.surjective loop_state.update_convs(1,3) snd_conv)
  then show "((E, cd, Suc n, xa, buildResults, y), E, cd, n, st, buildResults, es)
       \<in> measure (\<lambda>(E, cd, n, st, rs, es). length es)" by simp
next
  fix E cd n st buildResults es x xa y
  assume "es \<noteq> []" and "(xa, y) = inner_loop E cd (st\<lparr>lastKey := Reset, builder := []\<rparr>) es"
  then have "length y < length es"
    using inner_loop_progress[of "st\<lparr>lastKey := Reset, builder := []\<rparr>" es E cd]
    by (metis loop_state.select_convs(1,3) loop_state.surjective loop_state.update_convs(1,3) snd_conv)
  then show "((E, cd, Suc n, xa,
         buildResults @
                         [\<lparr>FileName = x, rSmallest = fst (hd (builder xa)),
                           rBiggest = fst (last (builder xa)), Rows = builder xa\<rparr>], y), E, cd, n, st, buildResults, es)
       \<in> measure (\<lambda>(E, cd, n, st, rs, es). length es)" by simp
qed

definition CompactTables ::
  "exec_env \<Rightarrow> CompactDef \<Rightarrow> entry list \<Rightarrow> comp_error + BuildResult list" where
  "CompactTables E cd it =
     outer_loop E cd 0
       \<lparr>lastKey = Reset, skipKey = Reset, builder = [], skippedTbls = SkippedTbls cd\<rparr> [] it"

section \<open>Levels, shards and change sets\<close>

text \<open>
  A level handler is an immutable snapshot of one level: its tables, their total size and
  the level number.  A shard owns a pool of level-0 tables and, per column family, one
  level handler for each level from 1 on (position \<open>level - 1\<close> of the list).
\<close>

record levelHandler =
  tables :: "Table list"
  totalSize :: int
  level :: int

record L0Table =
  fid :: "64 word"
  l0size :: int
  commitTS :: "64 word"

record Shard =
  ShID :: "64 word"
  Ver :: "64 word"
  cfs :: "levelHandler list list"
  l0s :: "L0Table list"
  compacting :: bool
  isPassive :: bool
  isSplitting :: bool
  estimatedShardSize :: int

record TableCreate =
  tcID :: "64 word"
  tcLevel :: "32 word"
  tcCF :: "32 word"
  tcSmallest :: bytes
  tcBiggest :: bytes

record ShardCompaction =
  Cf :: "32 word"
  cLevel :: "32 word"
  TopDeletes :: "64 word list"
  BottomDeletes :: "64 word list"
  TableCreates :: "TableCreate list"

datatype ShardFlush = ShardFlush (L0Create: "64 word option")

datatype ShardSplitFiles =
  ShardSplitFiles (L0Creates: "64 word list") (splitTableCreates: "TableCreate list")
    (TableDeletes: "64 word list")

record ShardChangeSet =
  ShardID :: "64 word"
  ShardVer :: "64 word"
  Flush :: "ShardFlush option"
  Compaction :: "ShardCompaction option"
  SplitFiles :: "ShardSplitFiles option"

datatype apply_error =
  errShardNotMatch | errDupChange | errManifestWrite | errS3 | errOpenTable "64 word"
  | errCompact comp_error

text \<open>
  The engine: the manifest (the change sets written so far), the table files that can be
  opened, the shards, the resources handed to the reclaimer, and the change sets
  given to the meta-change listener when one is configured.
\<close>

record ShardingDB =
  numCFs :: nat
  hasS3 :: bool
  metaChangeListener :: bool
  emitted :: "ShardChangeSet list"
  manifest :: "ShardChangeSet list"
  files :: "64 word \<rightharpoonup> Table"
  shardMap :: "64 word \<rightharpoonup> Shard"
  reclaimed :: "64 word list"

text \<open>
  What the surroundings decide during an install: whether loading the created files
  from object storage fails, whether writing the manifest fails, and, for the \<open>n\<close>-th
  update of a level handler, whether another writer has replaced the handler between the
  load of the old snapshot and the compare-and-swap (\<open>Some h\<close>: the slot then holds
  \<open>h\<close>).  \<open>sortSlice\<close> is \<open>sort.Slice\<close> of the Go library.
\<close>

record apply_env =
  s3LoadFails :: bool
  manifestWriteFails :: bool
  races :: "nat \<Rightarrow> levelHandler option"
  sortSlice :: "(Table \<Rightarrow> Table \<Rightarrow> bool) \<Rightarrow> Table list \<Rightarrow> Table list"

definition newLevelHandler :: "int \<Rightarrow> levelHandler" where
  "newLevelHandler lvl = \<lparr>tables = [], totalSize = 0, level = lvl\<rparr>"

text \<open>
  Modelled from the spec: the accessors of a shard (\<open>getLevelHandler\<close>,
  \<open>casLevelHandler\<close>, \<open>addEstimatedSize\<close>, \<open>markCompacting\<close>, \<open>newShardChangeSet\<close>)
  are not among the sources.  \<open>get_level\<close> returns the current snapshot of a level;
  \<open>cas_level(old, new)\<close> publishes the new snapshot iff the current pointer still equals
  the old one, and says whether it did.  An index out of range panics.
\<close>

definition getLevelHandler :: "Shard \<Rightarrow> int \<Rightarrow> int \<Rightarrow> levelHandler option" where
  "getLevelHandler shard cf lvl =
     (if 0 \<le> cf \<and> nat cf < length (cfs shard) \<and> 1 \<le> lvl \<and>
         nat (lvl - 1) < length (cfs shard ! nat cf)
      then Some (cfs shard ! nat cf ! nat (lvl - 1)) else None)"

definition setLevelHandler :: "Shard \<Rightarrow> int \<Rightarrow> int \<Rightarrow> levelHandler \<Rightarrow> Shard" where
  "setLevelHandler shard cf lvl h =
     shard\<lparr>cfs := (cfs shard)[nat cf := (cfs shard ! nat cf)[nat (lvl - 1) := h]]\<rparr>"

definition casLevelHandler ::
  "levelHandler option \<Rightarrow> Shard \<Rightarrow> int \<Rightarrow> int \<Rightarrow> levelHandler \<Rightarrow> levelHandler
     \<Rightarrow> bool \<times> Shard" where
  "casLevelHandler race shard cf lvl oldLevel newLevel =
     (case race of
        None \<Rightarrow> (True, setLevelHandler shard cf lvl newLevel)
      | Some other \<Rightarrow> (False, setLevelHandler shard cf lvl other))"

definition addEstimatedSize :: "Shard \<Rightarrow> int \<Rightarrow> Shard" where
  "addEstimatedSize shard delta = shard\<lparr>estimatedShardSize := estimatedShardSize shard + delta\<rparr>"

definition markCompacting :: "Shard \<Rightarrow> bool \<Rightarrow> Shard" where
  "markCompacting shard b = shard\<lparr>compacting := b\<rparr>"

definition newShardChangeSet :: "Shard \<Rightarrow> ShardChangeSet" where
  "newShardChangeSet shard =
     \<lparr>ShardID = ShID shard, ShardVer = Ver shard, Flush = None, Compaction = None,
      SplitFiles = None\<rparr>"

text \<open>
  Modelled from the spec: \<open>atomicRemoveL0\<close> is not among the sources.  The compacted
  level-0 tables are the tail of the pool (the oldest ones); removing \<open>cnt\<close> of them
  returns their total size.  Asking for more tables than the pool holds panics.
\<close>

definition atomicRemoveL0 :: "Shard \<Rightarrow> nat \<Rightarrow> (Shard \<times> int) option" where
  "atomicRemoveL0 shard cnt =
     (if cnt \<le> length (l0s shard)
      then Some (shard\<lparr>l0s := take (length (l0s shard) - cnt) (l0s shard)\<rparr>,
                 sum_list (map l0size (drop (length (l0s shard) - cnt) (l0s shard))))
      else None)"

text \<open>
  Modelled from the spec: \<open>manifest.writeChangeSet\<close> is not among the sources.  A
  change set that the manifest already records is a duplicate and is answered with
  \<open>errDupChange\<close>; any other change set is appended to the manifest, unless the write
  fails.
\<close>

definition writeChangeSet ::
  "bool \<Rightarrow> ShardChangeSet list \<Rightarrow> ShardChangeSet \<Rightarrow> apply_error option \<times> ShardChangeSet list" where
  "writeChangeSet writeFails m changeSet =
     (if changeSet \<in> set m then (Some errDupChange, m)
      else if writeFails then (Some errManifestWrite, m)
      else (None, m @ [changeSet]))"

section \<open>Installing a compaction\<close>

text \<open>
  Modelled from the spec: the type \<open>deletions\<close> is not among the sources.  It
  collects, by table id, the tables removed from the level snapshots; after a successful
  install their union is handed to the reclaimer.  The install adds a table under its id,
  removes an id again (a table that a move-down creates one level further down), and
  collects what is left.
\<close>

type_synonym deletions = "(64 word \<times> Table) list"

definition del_add :: "deletions \<Rightarrow> 64 word \<Rightarrow> Table \<Rightarrow> deletions" where
  "del_add del i t = filter (\<lambda>p. fst p \<noteq> i) del @ [(i, t)]"

definition del_remove :: "deletions \<Rightarrow> 64 word \<Rightarrow> deletions" where
  "del_remove del i = filter (\<lambda>p. fst p \<noteq> i) del"

definition del_collect :: "deletions \<Rightarrow> 64 word list" where
  "del_collect del = map fst del"

fun assertTablesOrder_loop :: "Table list \<Rightarrow> bool" where
  "assertTablesOrder_loop (a # b # ts) =
     (if Compare (Smallest a) (Biggest a) > 0 \<or>
         Compare (Smallest a) (Smallest b) \<ge> 0 \<or>
         Compare (Biggest a) (Biggest b) \<ge> 0
      then False
      else assertTablesOrder_loop (b # ts))"
| "assertTablesOrder_loop ts = True"

definition assertTablesOrder :: "int \<Rightarrow> Table list \<Rightarrow> unit outcome" where
  "assertTablesOrder lvl tbls =
     (if lvl = 0 then Return ()
      else if assertTablesOrder_loop tbls then Return () else Panic)"

definition sortTables ::
  "((Table \<Rightarrow> Table \<Rightarrow> bool) \<Rightarrow> Table list \<Rightarrow> Table list) \<Rightarrow> Table list \<Rightarrow> Table list" where
  "sortTables srt tbls = srt (\<lambda>a b. Compare (Smallest a) (Smallest b) < 0) tbls"

fun containsUint64 :: "64 word list \<Rightarrow> 64 word \<Rightarrow> bool" where
  "containsUint64 [] v = False"
| "containsUint64 (sv # svs) v = (if sv = v then True else containsUint64 svs v)"

fun openCreates ::
  "(64 word \<rightharpoonup> Table) \<Rightarrow> int \<Rightarrow> TableCreate list \<Rightarrow> levelHandler \<Rightarrow> apply_error + levelHandler" where
  "openCreates fs cf [] newLevel = Inr newLevel"
| "openCreates fs cf (tbl # creates) newLevel =
     (if sint (tcCF tbl) \<noteq> cf then openCreates fs cf creates newLevel
      else (case fs (tcID tbl) of
              None \<Rightarrow> Inl (errOpenTable (tcID tbl))
            | Some t \<Rightarrow>
                openCreates fs cf creates
                  (newLevel\<lparr>tables := tables newLevel @ [t],
                            totalSize := totalSize newLevel + Size t\<rparr>)))"

fun keepOldTables ::
  "64 word list \<Rightarrow> Table list \<Rightarrow> levelHandler \<times> deletions
     \<Rightarrow> levelHandler \<times> deletions" where
  "keepOldTables delIDs [] (newLevel, del) = (newLevel, del)"
| "keepOldTables delIDs (oldTbl # rest) (newLevel, del) =
     (if containsUint64 delIDs (ID oldTbl)
      then keepOldTables delIDs rest (newLevel, del_add del (ID oldTbl) oldTbl)
      else keepOldTables delIDs rest
             (newLevel\<lparr>tables := tables newLevel @ [oldTbl],
                       totalSize := totalSize newLevel + Size oldTbl\<rparr>, del))"

definition compactionUpdateLevelHandler ::
  "apply_env \<Rightarrow> nat \<Rightarrow> ShardingDB \<Rightarrow> Shard \<Rightarrow> int \<Rightarrow> int \<Rightarrow> TableCreate list \<Rightarrow> 64 word list
     \<Rightarrow> deletions
     \<Rightarrow> (apply_error option \<times> Shard \<times> deletions) outcome" where
  "compactionUpdateLevelHandler env n sdb shard cf lvl creates delIDs del =
     (case getLevelHandler shard cf lvl of
        None \<Rightarrow> Panic
      | Some oldLevel \<Rightarrow>
          (case openCreates (files sdb) cf creates (newLevelHandler lvl) of
             Inl err \<Rightarrow> Return (Some err, shard, del)
           | Inr newLevel1 \<Rightarrow>
               (case keepOldTables delIDs (tables oldLevel) (newLevel1, del) of
                  (newLevel2, del') \<Rightarrow>
                    let newLevel = newLevel2\<lparr>tables := sortTables (sortSlice env) (tables newLevel2)\<rparr>
                    in (case assertTablesOrder lvl (tables newLevel) of
                          Panic \<Rightarrow> Panic
                        | Return _ \<Rightarrow>
                            (case casLevelHandler (races env n) shard cf lvl oldLevel newLevel of
                               (swapped, shard1) \<Rightarrow>
                                 Return (None,
                                   addEstimatedSize shard1 (totalSize newLevel - totalSize oldLevel),
                                   del'))))))"

fun updateAllCFs ::
  "apply_env \<Rightarrow> ShardingDB \<Rightarrow> ShardCompaction \<Rightarrow> nat list \<Rightarrow> Shard \<Rightarrow> deletions
     \<Rightarrow> (apply_error option \<times> Shard \<times> deletions) outcome" where
  "updateAllCFs env sdb compaction [] shard del = Return (None, shard, del)"
| "updateAllCFs env sdb compaction (cf # rest) shard del =
     (case compactionUpdateLevelHandler env cf sdb shard (int cf) 1 (TableCreates compaction)
             (BottomDeletes compaction) del of
        Panic \<Rightarrow> Panic
      | Return (Some err, shard1, del1) \<Rightarrow> Return (Some err, shard1, del1)
      | Return (None, shard1, del1) \<Rightarrow> updateAllCFs env sdb compaction rest shard1 del1)"

fun removeCreated :: "TableCreate list \<Rightarrow> deletions \<Rightarrow> deletions" where
  "removeCreated [] del = del"
| "removeCreated (create # creates) del = removeCreated creates (del_remove del (tcID create))"

definition applyCompaction_body ::
  "apply_env \<Rightarrow> ShardingDB \<Rightarrow> Shard \<Rightarrow> ShardChangeSet
     \<Rightarrow> (apply_error option \<times> ShardingDB \<times> Shard) outcome" where
  "applyCompaction_body env sdb shard changeSet =
     (case Compaction changeSet of
        None \<Rightarrow> Panic
      | Some compaction \<Rightarrow>
          if hasS3 sdb \<and> s3LoadFails env then Return (Some errS3, sdb, shard)
          else
            (case writeChangeSet (manifestWriteFails env) (manifest sdb) changeSet of
               (Some err, m) \<Rightarrow>
                 if err = errDupChange then Return (None, sdb, shard)
                 else Return (Some err, sdb, shard)
             | (None, m) \<Rightarrow>
                 let sdb1 = sdb\<lparr>manifest := m\<rparr> in
                 if cLevel compaction = 0 then
                   (case updateAllCFs env sdb1 compaction [0 ..< numCFs sdb1] shard [] of
                      Panic \<Rightarrow> Panic
                    | Return (Some err, shard1, del) \<Rightarrow> Return (Some err, sdb1, shard1)
                    | Return (None, shard1, del) \<Rightarrow>
                        (case atomicRemoveL0 shard1 (length (TopDeletes compaction)) of
                           None \<Rightarrow> Panic
                         | Some (shard2, removed) \<Rightarrow>
                             Return (None, sdb1\<lparr>reclaimed := reclaimed sdb1 @ del_collect del\<rparr>,
                                     addEstimatedSize shard2 (- removed))))
                 else
                   (case compactionUpdateLevelHandler env 0 sdb1 shard (sint (Cf compaction))
                           (uint (cLevel compaction)) [] (TopDeletes compaction) [] of
                      Panic \<Rightarrow> Panic
                    | Return (Some err, shard1, del1) \<Rightarrow> Return (Some err, sdb1, shard1)
                    | Return (None, shard1, del1) \<Rightarrow>
                        (case compactionUpdateLevelHandler env 1 sdb1 shard1 (sint (Cf compaction))
                                (uint (cLevel compaction + 1)) (TableCreates compaction) (BottomDeletes compaction)
                                (removeCreated (TableCreates compaction) del1) of
                           Panic \<Rightarrow> Panic
                         | Return (Some err, shard2, del2) \<Rightarrow> Return (Some err, sdb1, shard2)
                         | Return (None, shard2, del2) \<Rightarrow>
                             Return (None, sdb1\<lparr>reclaimed := reclaimed sdb1 @ del_collect del2\<rparr>,
                                     shard2)))))"

definition applyCompaction ::
  "apply_env \<Rightarrow> ShardingDB \<Rightarrow> Shard \<Rightarrow> ShardChangeSet
     \<Rightarrow> (apply_error option \<times> ShardingDB \<times> Shard) outcome" where
  "applyCompaction env sdb shard changeSet =
     (case applyCompaction_body env sdb shard changeSet of
        Panic \<Rightarrow> Panic
      | Return (err, sdb1, shard1) \<Rightarrow> Return (err, sdb1, markCompacting shard1 False))"

text \<open>
  \<open>ApplyChangeSet\<close> finds the shard, checks its version and dispatches on the kind of
  change.  The appliers of a flush and of split files are parameters.  The shard is
  a shared object: what the applier does to it is seen through the shard map.
\<close>

definition ApplyChangeSet ::
  "(ShardingDB \<Rightarrow> Shard \<Rightarrow> ShardChangeSet \<Rightarrow> (apply_error option \<times> ShardingDB) outcome)
   \<Rightarrow> (ShardingDB \<Rightarrow> Shard \<Rightarrow> ShardChangeSet \<Rightarrow> (apply_error option \<times> ShardingDB) outcome)
   \<Rightarrow> apply_env \<Rightarrow> ShardingDB \<Rightarrow> ShardChangeSet \<Rightarrow> (apply_error option \<times> ShardingDB) outcome" where
  "ApplyChangeSet applyFlush applySplitFiles env sdb changeSet =
     (case shardMap sdb (ShardID changeSet) of
        None \<Rightarrow> Panic
      | Some shard \<Rightarrow>
          if Ver shard \<noteq> ShardVer changeSet then Return (Some errShardNotMatch, sdb)
          else if Flush changeSet \<noteq> None then applyFlush sdb shard changeSet
          else if Compaction changeSet \<noteq> None then
            (case applyCompaction env sdb shard changeSet of
               Panic \<Rightarrow> Panic
             | Return (err, sdb1, shard1) \<Rightarrow>
                 Return (err, sdb1\<lparr>shardMap := (shardMap sdb1)(ShardID changeSet \<mapsto> shard1)\<rparr>))
          else if SplitFiles changeSet \<noteq> None then applySplitFiles sdb shard changeSet
          else Return (None, sdb))"

section \<open>Running a compaction definition\<close>

definition newTableCreate :: "Table \<Rightarrow> int \<Rightarrow> int \<Rightarrow> TableCreate" where
  "newTableCreate tbl cf lvl =
     \<lparr>tcID = ID tbl, tcLevel = word_of_int lvl, tcCF = word_of_int cf,
      tcSmallest = UserKey (Smallest tbl), tcBiggest = UserKey (Biggest tbl)\<rparr>"

text \<open>
  The first half of \<open>runCompactionDef\<close> builds the compaction record.  The executor
  \<open>compactBuildTables\<close> (it prepares the definition, runs \<open>CompactTables\<close>, allocates
  file ids, writes files and turns the build results into table creates) is a parameter
  that takes and returns the engine.
\<close>

definition buildCompaction ::
  "(ShardingDB \<Rightarrow> int \<Rightarrow> CompactDef \<Rightarrow> ShardingDB \<times> (apply_error + TableCreate list))
   \<Rightarrow> ShardingDB \<Rightarrow> int \<Rightarrow> CompactDef \<Rightarrow> ShardingDB \<times> (apply_error + ShardCompaction)" where
  "buildCompaction compactBuildTables sdb cf cd =
     (let compaction = \<lparr>Cf = word_of_int cf, cLevel = word_of_int (Level cd), TopDeletes = [],
                  BottomDeletes = [], TableCreates = []\<rparr> in
      if moveDown cd then
        (sdb, Inr (compaction\<lparr>TopDeletes := map ID (Top cd),
                       TableCreates := map (\<lambda>t. newTableCreate t cf (Level cd + 1)) (Top cd)\<rparr>))
      else
        (case compactBuildTables sdb cf cd of
           (sdb1, Inl err) \<Rightarrow> (sdb1, Inl err)
         | (sdb1, Inr creates) \<Rightarrow>
             (sdb1, Inr (compaction\<lparr>TableCreates := creates, TopDeletes := map ID (Top cd),
                             BottomDeletes := map ID (Bot cd)\<rparr>))))"

definition runCompactionDef ::
  "(ShardingDB \<Rightarrow> int \<Rightarrow> CompactDef \<Rightarrow> ShardingDB \<times> (apply_error + TableCreate list))
   \<Rightarrow> apply_env \<Rightarrow> ShardingDB \<Rightarrow> Shard \<Rightarrow> int \<Rightarrow> CompactDef
   \<Rightarrow> (apply_error option \<times> ShardingDB \<times> Shard) outcome" where
  "runCompactionDef compactBuildTables env sdb shard cf cd =
     (case buildCompaction compactBuildTables sdb cf cd of
        (sdb1, Inl err) \<Rightarrow> Return (Some err, sdb1, shard)
      | (sdb1, Inr compaction) \<Rightarrow>
          let change = (newShardChangeSet shard)\<lparr>Compaction := Some compaction\<rparr> in
          if metaChangeListener sdb1
          then Return (None, sdb1\<lparr>emitted := emitted sdb1 @ [change]\<rparr>, shard)
          else applyCompaction env sdb1 shard change)"

section \<open>Compaction priorities\<close>

text \<open>
  The score of a shard is computed in floating point by \<open>getCompactionPriority\<close>, which
  is a parameter here; a score is taken as a real number.  The shard map is visited in
  the order \<open>Range\<close> happens to choose, given as a list.  \<open>sort.Slice\<close> is a parameter.
\<close>

record CompactionPriority =
  pCF :: int
  pLevel :: int
  Score :: real
  pShard :: Shard

fun collectPriorities :: "(Shard \<Rightarrow> CompactionPriority) \<Rightarrow> Shard list \<Rightarrow> CompactionPriority list" where
  "collectPriorities getCompactionPriority [] = []"
| "collectPriorities getCompactionPriority (shard # rest) =
     (if \<not> isPassive shard \<and> \<not> compacting shard
      then (let pri = getCompactionPriority shard in
            if Score pri > 1
            then pri # collectPriorities getCompactionPriority rest
            else collectPriorities getCompactionPriority rest)
      else collectPriorities getCompactionPriority rest)"

definition GetCompactionPriorities ::
  "((CompactionPriority \<Rightarrow> CompactionPriority \<Rightarrow> bool) \<Rightarrow> CompactionPriority list
      \<Rightarrow> CompactionPriority list)
   \<Rightarrow> (Shard \<Rightarrow> CompactionPriority) \<Rightarrow> Shard list \<Rightarrow> CompactionPriority list" where
  "GetCompactionPriorities srt getCompactionPriority shards =
     srt (\<lambda>a b. Score a > Score b) (collectPriorities getCompactionPriority shards)"

text \<open>
  An insertion sort, for the concrete runs below: on a list whose elements are pairwise
  comparable and distinct under the order every correct sort gives the same result.
\<close>

fun insertBy :: "('a \<Rightarrow> 'a \<Rightarrow> bool) \<Rightarrow> 'a \<Rightarrow> 'a list \<Rightarrow> 'a list" where
  "insertBy lt x [] = [x]"
| "insertBy lt x (y # ys) = (if lt y x then y # insertBy lt x ys else x # y # ys)"

fun insertionSort :: "('a \<Rightarrow> 'a \<Rightarrow> bool) \<Rightarrow> 'a list \<Rightarrow> 'a list" where
  "insertionSort lt [] = []"
| "insertionSort lt (x # xs) = insertBy lt x (insertionSort lt xs)"

section \<open>What a compaction run emits\<close>

text \<open>
  The entries a run adds to its builders, taken together, do not depend on where the
  output files are cut: \<open>flat\<close> follows the skip key alone, and \<open>gcOut\<close> is what the
  version rule, the tombstone rule and the filter leave of one entry that is not skipped.
  The input of a run is in key order when it comes from the merge iterator
  (\<open>sorted_keys\<close>); \<open>below cd u\<close> holds of the entries of user key \<open>u\<close> whose version
  is at most the safe timestamp.
\<close>

definition tombstone :: ValueStruct where
  "tombstone = zeroValueStruct\<lparr>Meta := bitDelete\<rparr>"

definition gcOut :: "CompactDef \<Rightarrow> Key \<Rightarrow> ValueStruct \<Rightarrow> entry list" where
  "gcOut cd key vs =
     (if Version key \<le> SafeTS cd then
        (if isDeleted (Meta vs) then (if HasOverlap cd then [(key, vs)] else [])
         else (case Filter cd of
                 None \<Rightarrow> [(key, vs)]
               | Some f \<Rightarrow>
                   (let d = f (CF cd) (UserKey key) (Value vs) (UserMeta vs) in
                    if d = DecisionMarkTombstone
                    then (if HasOverlap cd then [(key, tombstone)] else [])
                    else if d = DecisionDrop then []
                    else [(key, vs)])))
      else [(key, vs)])"

fun flat :: "CompactDef \<Rightarrow> Key \<Rightarrow> entry list \<Rightarrow> entry list" where
  "flat cd sk [] = []"
| "flat cd sk ((key, vs) # es) =
     (if \<not> IsEmpty sk \<and> SameUserKey key sk then flat cd sk es
      else gcOut cd key vs @
           flat cd (if Version key \<le> SafeTS cd then key
                    else if \<not> IsEmpty sk then Reset else sk) es)"

definition sorted_keys :: "entry list \<Rightarrow> bool" where
  "sorted_keys es = sorted_wrt (\<lambda>a b. Compare (fst a) (fst b) < 0) es"

definition ordered_user_keys :: "entry list \<Rightarrow> bool" where
  "ordered_user_keys es = sorted_wrt (\<lambda>a b. UserKey (fst a) \<le> UserKey (fst b)) es"

definition below :: "CompactDef \<Rightarrow> bytes \<Rightarrow> entry \<Rightarrow> bool" where
  "below cd u e = (UserKey (fst e) = u \<and> Version (fst e) \<le> SafeTS cd)"

definition userKeys :: "entry list \<Rightarrow> bytes set" where
  "userKeys es = UserKey ` fst ` set es"

definition disjoint_tables :: "BuildResult list \<Rightarrow> bool" where
  "disjoint_tables rs =
     (\<forall>i<length rs. \<forall>j<length rs. i \<noteq> j \<longrightarrow>
        userKeys (Rows (rs ! i)) \<inter> userKeys (Rows (rs ! j)) = {})"


section \<open>Inputs for the concrete runs\<close>

text \<open>
  An executor environment without failures, a compaction definition, values, tables,
  shards, an engine and a change set, for the concrete runs in the proofs below.
\<close>

definition ex_env :: exec_env where
  "ex_env = \<lparr>encodedSize = (\<lambda>v. int (length (Value v)) + 10),
     estimateSize = (\<lambda>es. int (length es) * 20),
     openFails = (\<lambda>n. False), finishFails = (\<lambda>n. False), s3c = None\<rparr>"

definition ex_cd :: CompactDef where
  "ex_cd = \<lparr>CF = 0, Level = 1, Top = [], Bot = [], SkippedTbls = [], SafeTS = 20,
     Filter = None, HasOverlap = False, MaxTableSize = 30,
     AllocIDFunc = Some (\<lambda>n. word_of_nat n + 100), InMemory = True\<rparr>"

definition ex_val :: ValueStruct where
  "ex_val = \<lparr>Meta = 0, UserMeta = [], Value = [7], VVersion = 0\<rparr>"

definition ex_del :: ValueStruct where
  "ex_del = \<lparr>Meta = 1, UserMeta = [], Value = [], VVersion = 0\<rparr>"

definition ex_range_overlap :: "Table \<Rightarrow> Key \<Rightarrow> Key \<Rightarrow> bool \<Rightarrow> bool" where
  "ex_range_overlap t start end includeEnd =
     (if Compare start (Biggest t) > 0 then False
      else if Compare end (Smallest t) < 0 then False
      else if Compare end (Smallest t) = 0 then includeEnd
      else True)"

definition ex_table :: "64 word \<Rightarrow> byte \<Rightarrow> byte \<Rightarrow> int \<Rightarrow> Table" where
  "ex_table i lo hi sz = \<lparr>ID = i, Smallest = Key [lo] 9, Biggest = Key [hi] 1, Size = sz\<rparr>"

definition ex_apply_env :: apply_env where
  "ex_apply_env = \<lparr>s3LoadFails = False, manifestWriteFails = False, races = (\<lambda>n. None),
     sortSlice = insertionSort\<rparr>"

definition ex_level :: "int \<Rightarrow> Table list \<Rightarrow> levelHandler" where
  "ex_level lvl tbls = \<lparr>tables = tbls, totalSize = sum_list (map Size tbls), level = lvl\<rparr>"

definition ex_shard :: "Table list \<Rightarrow> Table list \<Rightarrow> Shard" where
  "ex_shard l1 l2 = \<lparr>ShID = 1, Ver = 1, cfs = [[ex_level 1 l1, ex_level 2 l2, ex_level 3 []]],
     l0s = [], compacting = True, isPassive = False, isSplitting = False,
     estimatedShardSize = sum_list (map Size (l1 @ l2))\<rparr>"

definition ex_sdb :: "Table list \<Rightarrow> ShardingDB" where
  "ex_sdb tbls = \<lparr>numCFs = 1, hasS3 = False, metaChangeListener = False, emitted = [],
     manifest = [], files = map_of (map (\<lambda>t. (ID t, t)) tbls), shardMap = Map.empty,
     reclaimed = []\<rparr>"

definition ex_failing_executor ::
  "ShardingDB \<Rightarrow> int \<Rightarrow> CompactDef \<Rightarrow> ShardingDB \<times> (apply_error + TableCreate list)" where
  "ex_failing_executor sdb cf cd = (sdb, Inl (errCompact OpenFileError))"

definition ex_change :: ShardChangeSet where
  "ex_change = \<lparr>ShardID = 1, ShardVer = 1, Flush = None,
     Compaction = Some \<lparr>Cf = 0, cLevel = 1, TopDeletes = [1], BottomDeletes = [2],
        TableCreates = [\<lparr>tcID = 3, tcLevel = 2, tcCF = 0, tcSmallest = [1], tcBiggest = [6]\<rparr>]\<rparr>,
     SplitFiles = None\<rparr>"

definition ex_priority :: "Shard \<Rightarrow> CompactionPriority" where
  "ex_priority s = \<lparr>pCF = 0, pLevel = 1,
     Score = (if ShID s = 1 then 3 else if ShID s = 2 then 4 else if ShID s = 3 then 5 else 1 / 2),
     pShard = s\<rparr>"

section \<open>The order of keys and the output of a run\<close>

lemma bytesCompare_less: "bytesCompare xs ys < 0 \<longleftrightarrow> xs < ys"
  by (induction xs ys rule: bytesCompare.induct) auto

lemma bytesCompare_eq: "bytesCompare xs ys = 0 \<longleftrightarrow> xs = ys"
  by (induction xs ys rule: bytesCompare.induct) auto

lemma bytesCompare_greater: "bytesCompare xs ys > 0 \<longleftrightarrow> ys < xs"
  by (induction xs ys rule: bytesCompare.induct) auto

lemma Compare_less:
  "Compare a b < 0 \<longleftrightarrow> UserKey a < UserKey b \<or> (UserKey a = UserKey b \<and> Version b < Version a)"
  using bytesCompare_less[of "UserKey a" "UserKey b"] bytesCompare_eq[of "UserKey a" "UserKey b"]
  by (auto simp: Compare_def Let_def)

lemma Compare_le: "Compare a b \<le> 0 \<Longrightarrow> UserKey a \<le> UserKey b"
  using bytesCompare_less[of "UserKey a" "UserKey b"] bytesCompare_eq[of "UserKey a" "UserKey b"]
  by (auto simp: Compare_def Let_def split: if_splits)

lemma gcStep_eq:
  "gcStep cd st key vs =
     st\<lparr>skipKey := (if Version key \<le> SafeTS cd then key else skipKey st),
        builder := builder st @ gcOut cd key vs\<rparr>"
  by (auto simp: gcStep_def gcOut_def Let_def tombstone_def split: option.splits)

lemma step_Continue_flat:
  "step E cd st (key, vs) = Continue st' \<Longrightarrow>
   builder st' @ flat cd (skipKey st') es = builder st @ flat cd (skipKey st) ((key, vs) # es)"
  by (auto simp: step_def Let_def gcStep_eq IsEmpty_def Reset_def split: if_splits prod.splits)

lemma step_Break_flat:
  "step E cd st (key, vs) = Break st' \<Longrightarrow>
   builder st' = builder st \<and> flat cd (skipKey st') ((key, vs) # es) = flat cd (skipKey st) ((key, vs) # es)"
  by (auto simp: step_def Let_def gcStep_eq IsEmpty_def Reset_def split: if_splits prod.splits)

lemma inner_loop_flat:
  "inner_loop E cd st es = (st', rest) \<Longrightarrow>
   builder st' @ flat cd (skipKey st') rest = builder st @ flat cd (skipKey st) es"
proof (induction es arbitrary: st)
  case Nil
  then show ?case by simp
next
  case (Cons e es)
  obtain key vs where e: "e = (key, vs)" by (cases e)
  show ?case
  proof (cases "step E cd st e")
    case (Continue st1)
    with Cons.prems have "inner_loop E cd st1 es = (st', rest)" by simp
    from Cons.IH[OF this] step_Continue_flat[OF Continue[unfolded e], of es]
    show ?thesis by (simp add: e)
  next
    case (Break st1)
    with Cons.prems have "st' = st1" "rest = e # es" by auto
    with step_Break_flat[OF Break[unfolded e], of es] show ?thesis by (simp add: e)
  qed
qed

lemma outer_loop_flat:
  "outer_loop E cd n st rs es = Inr out \<Longrightarrow>
   concat (map Rows out) = concat (map Rows rs) @ flat cd (skipKey st) es"
proof (induction E cd n st rs es rule: outer_loop.induct)
  case (1 E cd n st rs es)
  show ?case
  proof (cases "es = []")
    case True
    with "1.prems" show ?thesis by simp
  next
    case False
    obtain st' rest where il: "inner_loop E cd (st\<lparr>lastKey := Reset, builder := []\<rparr>) es = (st', rest)"
      by (cases "inner_loop E cd (st\<lparr>lastKey := Reset, builder := []\<rparr>) es")
    from inner_loop_flat[OF il]
    have fl: "builder st' @ flat cd (skipKey st') rest = flat cd (skipKey st) es" by simp
    have nf: "\<not> (\<not> InMemory cd \<and> openFails E n)"
      using "1.prems" False by (auto simp: Let_def)
    show ?thesis
    proof (cases "builder st' = []")
      case True
      with "1.prems" False il nf have "outer_loop E cd (Suc n) st' rs rest = Inr out"
        by (simp add: Let_def)
      from "1.IH"(1)[OF False refl nf il[symmetric] True this] fl True
      show ?thesis by simp
    next
      case nb: False
      let ?r = "\<lparr>FileName = map_option (\<lambda>f. f n) (AllocIDFunc cd), rSmallest = fst (hd (builder st')),
                           rBiggest = fst (last (builder st')), Rows = builder st'\<rparr>"
      from "1.prems" False il nf nb have ff: "\<not> finishFails E n"
        and s3: "\<not> (case s3c E of None \<Rightarrow> False | Some putFails \<Rightarrow> putFails n)"
        by (auto simp: Let_def split: if_splits)
      with "1.prems" False il nf nb have "outer_loop E cd (Suc n) st' (rs @ [?r]) rest = Inr out"
        by (simp add: Let_def)
      from "1.IH"(2)[OF False refl nf il[symmetric] nb ff s3 this] fl
      show ?thesis by simp
    qed
  qed
qed

lemma CompactTables_flat:
  "CompactTables E cd it = Inr out \<Longrightarrow> concat (map Rows out) = flat cd Reset it"
  using outer_loop_flat[of E cd 0 _ "[]" it out] by (simp add: CompactTables_def)

lemma gcOut_keys: "e \<in> set (gcOut cd key vs) \<Longrightarrow> fst e = key"
  by (auto simp: gcOut_def Let_def split: if_splits option.splits)

lemma flat_keys: "e \<in> set (flat cd sk es) \<Longrightarrow> fst e \<in> fst ` set es"
proof (induction es arbitrary: sk)
  case Nil
  then show ?case by simp
next
  case (Cons a es)
  obtain key vs where a: "a = (key, vs)" by (cases a)
  from Cons.prems Cons.IH show ?case
    by (auto simp: a dest: gcOut_keys split: if_splits)
qed

lemma filter_below_gcOut:
  "filter (below cd u) (gcOut cd key vs) =
     (if UserKey key = u \<and> Version key \<le> SafeTS cd then gcOut cd key vs else [])"
proof -
  have "\<forall>e\<in>set (gcOut cd key vs). below cd u e = (UserKey key = u \<and> Version key \<le> SafeTS cd)"
    by (auto simp: below_def dest: gcOut_keys)
  then show ?thesis
    by (metis (mono_tags, lifting) filter_False filter_True)
qed

lemma flat_no_user:
  assumes "\<forall>e\<in>set es. UserKey (fst e) \<noteq> u"
  shows "filter (below cd u) (flat cd sk es) = []"
proof -
  have "\<forall>e\<in>set (flat cd sk es). \<not> below cd u e"
    using assms flat_keys[of _ cd sk es] by (fastforce simp: below_def)
  then show ?thesis by simp
qed

lemma flat_gc:
  assumes "sorted_keys es" "u \<noteq> []"
    "IsEmpty sk \<or> (\<forall>e\<in>set es. Compare sk (fst e) < 0)"
  shows "filter (below cd u) (flat cd sk es) =
     (if \<not> IsEmpty sk \<and> UserKey sk = u then []
      else case find (below cd u) es of None \<Rightarrow> [] | Some (k, v) \<Rightarrow> gcOut cd k v)"
  using assms
proof (induction es arbitrary: sk)
  case Nil
  then show ?case by simp
next
  case (Cons a es)
  obtain key vs where a: "a = (key, vs)" by (cases a)
  from Cons.prems(1) have sorted: "sorted_keys es"
    and later: "\<forall>e\<in>set es. Compare key (fst e) < 0"
    by (auto simp: sorted_keys_def a)
  show ?case
  proof (cases "\<not> IsEmpty sk \<and> SameUserKey key sk")
    case skip: True
    then have sk': "IsEmpty sk \<or> (\<forall>e\<in>set es. Compare sk (fst e) < 0)"
      using Cons.prems(3) by auto
    have nb: "UserKey sk \<noteq> u \<Longrightarrow> \<not> below cd u a"
      using skip by (auto simp: a SameUserKey_def below_def)
    from Cons.IH[OF sorted Cons.prems(2) sk'] skip nb show ?thesis
      by (auto simp: a)
  next
    case noskip: False
    let ?sk' = "if Version key \<le> SafeTS cd then key else if \<not> IsEmpty sk then Reset else sk"
    have sk': "IsEmpty ?sk' \<or> (\<forall>e\<in>set es. Compare ?sk' (fst e) < 0)"
      using later by (auto simp: IsEmpty_def Reset_def)
    note IH = Cons.IH[OF sorted Cons.prems(2) sk']
    have fl: "flat cd sk (a # es) = gcOut cd key vs @ flat cd ?sk' es"
      using noskip by (auto simp: a)
    show ?thesis
    proof (cases "\<not> IsEmpty sk \<and> UserKey sk = u")
      case True
      with noskip have ne: "UserKey key \<noteq> u" by (auto simp: SameUserKey_def)
      from True Cons.prems(3) have "Compare sk key < 0" by (simp add: a)
      with True ne have lt: "u < UserKey key" by (auto simp: Compare_less)
      have "\<forall>e\<in>set es. UserKey (fst e) \<noteq> u"
      proof
        fix e assume "e \<in> set es"
        with later have "UserKey key \<le> UserKey (fst e)" by (auto simp: Compare_less)
        with lt show "UserKey (fst e) \<noteq> u" by auto
      qed
      from flat_no_user[OF this] ne True show ?thesis unfolding fl
        by (simp add: filter_below_gcOut)
    next
      case False
      show ?thesis
      proof (cases "UserKey key = u \<and> Version key \<le> SafeTS cd")
        case hit: True
        then have "\<not> IsEmpty key \<and> UserKey key = u"
          using Cons.prems(2) by (auto simp: IsEmpty_def)
        with IH hit have "filter (below cd u) (flat cd key es) = []" by simp
        moreover have "below cd u a" using hit by (simp add: a below_def)
        ultimately show ?thesis unfolding fl using hit False
          by (auto simp add: filter_below_gcOut a)
      next
        case miss: False
        have "\<not> (\<not> IsEmpty ?sk' \<and> UserKey ?sk' = u)"
          using miss False by (auto simp: IsEmpty_def Reset_def)
        with IH have "filter (below cd u) (flat cd ?sk' es) =
            (case find (below cd u) es of None \<Rightarrow> [] | Some (k, v) \<Rightarrow> gcOut cd k v)"
          by simp
        moreover have "\<not> below cd u a" using miss by (simp add: a below_def)
        ultimately show ?thesis unfolding fl using miss False
          by (auto simp add: filter_below_gcOut)
      qed
    qed
  qed
qed

lemma find_newest:
  assumes "sorted_keys es" "(k, v) \<in> set es" "Version k \<le> SafeTS cd"
    "\<forall>e\<in>set es. UserKey (fst e) = UserKey k \<and> Version (fst e) \<le> SafeTS cd
        \<longrightarrow> Version (fst e) \<le> Version k"
  shows "find (below cd (UserKey k)) es = Some (k, v)"
  using assms
proof (induction es)
  case Nil
  then show ?case by simp
next
  case (Cons a es)
  show ?case
  proof (cases "a = (k, v)")
    case True
    with Cons.prems show ?thesis by (simp add: below_def)
  next
    case False
    with Cons.prems(2) have mem: "(k, v) \<in> set es" by simp
    from Cons.prems(1) mem have "Compare (fst a) k < 0"
      by (auto simp: sorted_keys_def)
    moreover from Cons.prems(4) have "below cd (UserKey k) a \<longrightarrow> Version (fst a) \<le> Version k"
      by (simp add: below_def)
    ultimately have "\<not> below cd (UserKey k) a"
      by (auto simp: Compare_less below_def)
    moreover have "find (below cd (UserKey k)) es = Some (k, v)"
      using Cons.IH[OF _ mem Cons.prems(3)] Cons.prems(1,4) by (simp add: sorted_keys_def)
    ultimately show ?thesis by simp
  qed
qed

lemma userKeys_gcOut: "userKeys (gcOut cd key vs) \<subseteq> {UserKey key}"
  by (auto simp: userKeys_def dest: gcOut_keys)

lemma userKeys_append [simp]: "userKeys (xs @ ys) = userKeys xs \<union> userKeys ys"
  by (auto simp: userKeys_def)

lemma userKeys_Cons: "userKeys (a # es) = insert (UserKey (fst a)) (userKeys es)"
  by (auto simp: userKeys_def)

lemma userKeys_iff: "x \<in> userKeys es \<longleftrightarrow> (\<exists>e\<in>set es. x = UserKey (fst e))"
  by (auto simp: userKeys_def)

lemma step_Break_boundary:
  "step E cd st (key, vs) = Break st' \<Longrightarrow>
   \<not> SameUserKey key (lastKey st) \<and> builder st' = builder st \<and> lastKey st' = lastKey st"
  by (auto simp: step_def Let_def split: if_splits prod.splits)

lemma step_Continue_bound:
  assumes "step E cd st (key, vs) = Continue st'"
    "UserKey (lastKey st) \<le> UserKey key"
    "\<forall>x\<in>userKeys (builder st). x \<le> UserKey (lastKey st)"
  shows "UserKey (lastKey st') \<le> UserKey key \<and>
         (\<forall>x\<in>userKeys (builder st'). x \<le> UserKey (lastKey st')) \<and>
         userKeys (builder st') \<subseteq> userKeys (builder st) \<union> {UserKey key}"
proof -
  have cases: "st' = st \<or>
     (\<exists>s. st' = gcStep cd s key vs \<and> builder s = builder st \<and>
          (lastKey s = key \<or> (lastKey s = lastKey st \<and> SameUserKey key (lastKey st))))"
    using assms(1)
    by (auto simp: step_def Let_def split: if_splits prod.splits)
  show ?thesis
  proof (rule disjE[OF cases])
    assume "st' = st"
    with assms show ?thesis by auto
  next
    assume "\<exists>s. st' = gcStep cd s key vs \<and> builder s = builder st \<and>
          (lastKey s = key \<or> (lastKey s = lastKey st \<and> SameUserKey key (lastKey st)))"
    then obtain s where s: "st' = gcStep cd s key vs" "builder s = builder st"
      "lastKey s = key \<or> (lastKey s = lastKey st \<and> SameUserKey key (lastKey st))" by blast
    have lk: "UserKey (lastKey st') = UserKey key"
      using s(1,3) by (auto simp: gcStep_eq SameUserKey_def)
    have b: "builder st' = builder st @ gcOut cd key vs"
      using s(1,2) by (simp add: gcStep_eq)
    show ?thesis
      using assms(2,3) userKeys_gcOut[of cd key vs] by (auto simp: lk b)
  qed
qed

lemma inner_loop_bound:
  assumes "ordered_user_keys es"
    "\<forall>e\<in>set es. UserKey (lastKey st) \<le> UserKey (fst e)"
    "\<forall>x\<in>userKeys (builder st). x \<le> UserKey (lastKey st)"
    "inner_loop E cd st es = (st', rest)"
  shows "(\<forall>x\<in>userKeys (builder st'). \<forall>e\<in>set rest. x < UserKey (fst e)) \<and>
         set rest \<subseteq> set es \<and> ordered_user_keys rest \<and>
         userKeys (builder st') \<subseteq> userKeys (builder st) \<union> userKeys es"
  using assms
proof (induction es arbitrary: st)
  case Nil
  then show ?case by (auto simp: ordered_user_keys_def)
next
  case (Cons a es)
  obtain key vs where a: "a = (key, vs)" by (cases a)
  from Cons.prems(1) have sorted: "ordered_user_keys es"
    and later_le: "\<forall>e\<in>set es. UserKey key \<le> UserKey (fst e)"
    by (auto simp: ordered_user_keys_def a)
  have lk_le: "UserKey (lastKey st) \<le> UserKey key" using Cons.prems(2) by (simp add: a)
  show ?case
  proof (cases "step E cd st a")
    case (Continue st1)
    with Cons.prems(4) have il: "inner_loop E cd st1 es = (st', rest)" by simp
    from step_Continue_bound[OF Continue[unfolded a] lk_le Cons.prems(3)]
    have b1: "UserKey (lastKey st1) \<le> UserKey key"
      and b2: "\<forall>x\<in>userKeys (builder st1). x \<le> UserKey (lastKey st1)"
      and b3: "userKeys (builder st1) \<subseteq> userKeys (builder st) \<union> {UserKey key}"
      by auto
    have "\<forall>e\<in>set es. UserKey (lastKey st1) \<le> UserKey (fst e)"
      using b1 later_le by (meson order_trans)
    from Cons.IH[OF sorted this b2 il] b3 show ?thesis
      by (auto simp: userKeys_Cons a)
  next
    case (Break st1)
    with Cons.prems(4) have eq: "st' = st1" "rest = a # es" by auto
    from step_Break_boundary[OF Break[unfolded a]]
    have nb: "UserKey key \<noteq> UserKey (lastKey st)" and bs: "builder st1 = builder st"
      by (auto simp: SameUserKey_def)
    have lt: "UserKey (lastKey st) < UserKey key" using nb lk_le by auto
    have "\<forall>x\<in>userKeys (builder st). \<forall>e\<in>set (a # es). x < UserKey (fst e)"
    proof (intro ballI)
      fix x e assume x: "x \<in> userKeys (builder st)" and e: "e \<in> set (a # es)"
      from x Cons.prems(3) have "x \<le> UserKey (lastKey st)" by blast
      with lt have "x < UserKey key" by simp
      moreover from e later_le have "UserKey key \<le> UserKey (fst e)" by (auto simp: a)
      ultimately show "x < UserKey (fst e)" by simp
    qed
    with eq bs Cons.prems(1) show ?thesis by auto
  qed
qed

lemma disjoint_tables_snoc:
  assumes "disjoint_tables rs" "\<forall>r\<in>set rs. userKeys (Rows r) \<inter> userKeys (Rows t) = {}"
  shows "disjoint_tables (rs @ [t])"
  unfolding disjoint_tables_def
proof (intro allI impI)
  fix i j assume i: "i < length (rs @ [t])" and j: "j < length (rs @ [t])" and ne: "i \<noteq> j"
  show "userKeys (Rows ((rs @ [t]) ! i)) \<inter> userKeys (Rows ((rs @ [t]) ! j)) = {}"
  proof (cases "i < length rs")
    case True
    show ?thesis
    proof (cases "j < length rs")
      case jl: True
      with True ne assms(1) show ?thesis by (simp add: disjoint_tables_def nth_append)
    next
      case False
      with j have "j = length rs" by simp
      with True assms(2) show ?thesis by (simp add: nth_append)
    qed
  next
    case False
    with i have il: "i = length rs" by simp
    with ne j have "j < length rs" by simp
    with il assms(2) show ?thesis by (auto simp add: nth_append)
  qed
qed

lemma outer_loop_disjoint:
  assumes "ordered_user_keys es"
    "\<forall>r\<in>set rs. \<forall>x\<in>userKeys (Rows r). \<forall>e\<in>set es. x < UserKey (fst e)"
    "disjoint_tables rs"
    "outer_loop E cd n st rs es = Inr out"
  shows "disjoint_tables out"
  using assms
proof (induction E cd n st rs es rule: outer_loop.induct)
  case (1 E cd n st rs es)
  show ?case
  proof (cases "es = []")
    case True
    with "1.prems" show ?thesis by simp
  next
    case False
    let ?st0 = "st\<lparr>lastKey := Reset, builder := []\<rparr>"
    obtain st' rest where il: "inner_loop E cd ?st0 es = (st', rest)"
      by (cases "inner_loop E cd ?st0 es")
    have nf: "\<not> (\<not> InMemory cd \<and> openFails E n)"
      using "1.prems"(4) False by (auto simp: Let_def)
    have "\<forall>e\<in>set es. UserKey (lastKey ?st0) \<le> UserKey (fst e)"
      by (simp add: Reset_def)
    moreover have "\<forall>x\<in>userKeys (builder ?st0). x \<le> UserKey (lastKey ?st0)"
      by (simp add: userKeys_def)
    ultimately have ib: "\<forall>x\<in>userKeys (builder st'). \<forall>e\<in>set rest. x < UserKey (fst e)"
      and sub: "set rest \<subseteq> set es" and srt: "ordered_user_keys rest"
      and uk: "userKeys (builder st') \<subseteq> userKeys es"
      using inner_loop_bound[OF "1.prems"(1) _ _ il] by (auto simp: userKeys_def)
    have old: "\<forall>r\<in>set rs. \<forall>x\<in>userKeys (Rows r). \<forall>e\<in>set rest. x < UserKey (fst e)"
      using "1.prems"(2) sub by blast
    show ?thesis
    proof (cases "builder st' = []")
      case True
      with "1.prems"(4) False il nf have "outer_loop E cd (Suc n) st' rs rest = Inr out"
        by (simp add: Let_def)
      from "1.IH"(1)[OF False refl nf il[symmetric] True srt old "1.prems"(3) this]
      show ?thesis .
    next
      case nb: False
      let ?r = "\<lparr>FileName = map_option (\<lambda>f. f n) (AllocIDFunc cd), rSmallest = fst (hd (builder st')),
                           rBiggest = fst (last (builder st')), Rows = builder st'\<rparr>"
      from "1.prems"(4) False il nf nb have ff: "\<not> finishFails E n"
        and s3: "\<not> (case s3c E of None \<Rightarrow> False | Some putFails \<Rightarrow> putFails n)"
        by (auto simp: Let_def split: if_splits)
      with "1.prems"(4) False il nf nb have ol: "outer_loop E cd (Suc n) st' (rs @ [?r]) rest = Inr out"
        by (simp add: Let_def)
      have new: "\<forall>r\<in>set (rs @ [?r]). \<forall>x\<in>userKeys (Rows r). \<forall>e\<in>set rest. x < UserKey (fst e)"
        using old ib by auto
      have "\<forall>r\<in>set rs. userKeys (Rows r) \<inter> userKeys (Rows ?r) = {}"
      proof
        fix r assume r: "r \<in> set rs"
        { fix x assume x: "x \<in> userKeys (Rows r)" and x2: "x \<in> userKeys (builder st')"
          from x2 uk have "x \<in> userKeys es" by blast
          then obtain e where "e \<in> set es" "x = UserKey (fst e)"
            by (auto simp: userKeys_iff)
          with "1.prems"(2) r x have False by fastforce }
        then show "userKeys (Rows r) \<inter> userKeys (Rows ?r) = {}" by auto
      qed
      from disjoint_tables_snoc[OF "1.prems"(3) this]
      have dj: "disjoint_tables (rs @ [?r])" .
      from "1.IH"(2)[OF False refl nf il[symmetric] nb ff s3 srt new dj ol]
      show ?thesis .
    qed
  qed
qed

lemma CompactTables_disjoint:
  "ordered_user_keys it \<Longrightarrow> CompactTables E cd it = Inr out \<Longrightarrow> disjoint_tables out"
  using outer_loop_disjoint[of it "[]" E cd 0 _ out]
  by (simp add: CompactTables_def disjoint_tables_def)

lemma CompactTables_total:
  assumes "InMemory cd \<or> (\<forall>n. \<not> openFails E n)" "\<forall>n. \<not> finishFails E n"
    "\<forall>n. case s3c E of None \<Rightarrow> True | Some putFails \<Rightarrow> \<not> putFails n"
  shows "\<exists>out. CompactTables E cd it = Inr out"
proof -
  have "\<exists>out. outer_loop E cd n st rs it = Inr out" for n st rs
    using assms
  proof (induction E cd n st rs it rule: outer_loop.induct)
    case (1 E cd n st rs es)
    show ?case
    proof (cases "es = []")
      case True
      then show ?thesis by simp
    next
      case False
      obtain st' rest where il: "inner_loop E cd (st\<lparr>lastKey := Reset, builder := []\<rparr>) es = (st', rest)"
        by (cases "inner_loop E cd (st\<lparr>lastKey := Reset, builder := []\<rparr>) es")
      have nf: "\<not> (\<not> InMemory cd \<and> openFails E n)" using "1.prems"(1) by auto
      have ff: "\<not> finishFails E n" using "1.prems"(2) by auto
      have s3: "\<not> (case s3c E of None \<Rightarrow> False | Some putFails \<Rightarrow> putFails n)"
        using "1.prems"(3) by (auto split: option.splits)
      show ?thesis
      proof (cases "builder st' = []")
        case True
        from "1.IH"(1)[OF False refl nf il[symmetric] True "1.prems"]
        show ?thesis using False il nf True by (simp add: Let_def)
      next
        case nb: False
        from "1.IH"(2)[OF False refl nf il[symmetric] nb ff s3 "1.prems"]
        show ?thesis using False il nf nb ff s3 by (simp add: Let_def)
      qed
    qed
  qed
  then show ?thesis by (simp add: CompactTables_def)
qed

section \<open>Version garbage collection, tombstones and file cuts\<close>

lemmas ex_defs = ex_env_def ex_cd_def ex_val_def ex_del_def
lemmas run_defs = CompactTables_def step_def gcStep_def Reset_def IsEmpty_def SameUserKey_def
  shouldFinishFile_def isDeleted_def bitDelete_def Let_def KeyLen_def overSkipTables_def
lemmas cmp_defs = sorted_keys_def Compare_def below_def

lemma CompactTables_gc:
  assumes "CompactTables E cd it = Inr out" "sorted_keys it" "(k, v) \<in> set it"
    "UserKey k \<noteq> []" "Version k \<le> SafeTS cd"
    "\<forall>e\<in>set it. UserKey (fst e) = UserKey k \<and> Version (fst e) \<le> SafeTS cd
        \<longrightarrow> Version (fst e) \<le> Version k"
  shows "filter (below cd (UserKey k)) (concat (map Rows out)) = gcOut cd k v"
proof -
  have "filter (below cd (UserKey k)) (flat cd Reset it) =
      (case find (below cd (UserKey k)) it of None \<Rightarrow> [] | Some (k', v') \<Rightarrow> gcOut cd k' v')"
    using flat_gc[OF assms(2,4), of Reset cd] by (simp add: IsEmpty_def Reset_def)
  also have "find (below cd (UserKey k)) it = Some (k, v)"
    using find_newest[OF assms(2,3,5,6)] .
  finally show ?thesis using CompactTables_flat[OF assms(1)] by simp
qed

lemma count_list_filter:
  "count_list (filter P xs) x = (if P x then count_list xs x else 0)"
  by (induction xs) auto

text \<open>
  Claim C1, as amended.  Let the input of a run of \<open>CompactTables\<close> be in key order
  and let the run return its tables.  For an entry \<open>(k, v)\<close> of the input with a
  non-empty user key that is the newest version of its user key at or below the safe
  timestamp, the versions of that user key at or below the safe timestamp found in the
  union of the output tables are: none, when \<open>v\<close> is a delete marker and there is no
  overlap with lower levels, or when the filter says drop, or says mark-tombstone without
  overlap; otherwise exactly one, with key \<open>k\<close> (the value \<open>v\<close> itself, or a bare
  tombstone when the filter says mark-tombstone with overlap).  No older version at or
  below the safe timestamp survives in any case.
\<close>

theorem CompactTables_keeps_newest_below_SafeTS:
  assumes "CompactTables E cd it = Inr out" "sorted_keys it" "(k, v) \<in> set it"
    "UserKey k \<noteq> []" "Version k \<le> SafeTS cd"
    "\<forall>e\<in>set it. UserKey (fst e) = UserKey k \<and> Version (fst e) \<le> SafeTS cd
        \<longrightarrow> Version (fst e) \<le> Version k"
  shows "filter (below cd (UserKey k)) (concat (map Rows out)) =
     (if isDeleted (Meta v) then (if HasOverlap cd then [(k, v)] else [])
      else case Filter cd of
             None \<Rightarrow> [(k, v)]
           | Some f \<Rightarrow>
               (if f (CF cd) (UserKey k) (Value v) (UserMeta v) = DecisionMarkTombstone
                then (if HasOverlap cd then [(k, tombstone)] else [])
                else if f (CF cd) (UserKey k) (Value v) (UserMeta v) = DecisionDrop then []
                else [(k, v)]))"
  using CompactTables_gc[OF assms] assms(5)
  by (simp add: gcOut_def Let_def split: option.splits)

theorem CompactTables_keeps_newest_below_SafeTS_witness:
  "CompactTables ex_env ex_cd
      [(Key [1] 30, ex_val), (Key [1] 10, ex_val), (Key [1] 5, ex_val), (Key [2] 5, ex_del)]
     = Inr [\<lparr>FileName = Some 100, rSmallest = Key [1] 30, rBiggest = Key [1] 10,
             Rows = [(Key [1] 30, ex_val), (Key [1] 10, ex_val)]\<rparr>] \<and>
   filter (below ex_cd [1]) [(Key [1] 30, ex_val), (Key [1] 10, ex_val)] = [(Key [1] 10, ex_val)]"
proof -
  let ?it = "[(Key [1] 30, ex_val), (Key [1] 10, ex_val), (Key [1] 5, ex_val), (Key [2] 5, ex_del)]"
  let ?out = "[\<lparr>FileName = Some 100, rSmallest = Key [1] 30, rBiggest = Key [1] 10,
             Rows = [(Key [1] 30, ex_val), (Key [1] 10, ex_val)]\<rparr>]"
  have run: "CompactTables ex_env ex_cd ?it = Inr ?out"
    by (simp add: ex_defs run_defs)
  have srt: "sorted_keys ?it" by (simp add: cmp_defs)
  have mem: "(Key [1] 10, ex_val) \<in> set ?it" by simp
  have ne: "UserKey (Key [1] 10) \<noteq> []" by simp
  have le: "Version (Key [1] 10) \<le> SafeTS ex_cd" by (simp add: ex_cd_def)
  have newest: "\<forall>e\<in>set ?it. UserKey (fst e) = UserKey (Key [1] 10) \<and> Version (fst e) \<le> SafeTS ex_cd
        \<longrightarrow> Version (fst e) \<le> Version (Key [1] 10)"
    by (simp add: ex_cd_def)
  from CompactTables_keeps_newest_below_SafeTS[OF run srt mem ne le newest] run
  show ?thesis by (simp add: ex_defs isDeleted_def bitDelete_def)
qed

text \<open>
  The claim C1 as first stated fails: a user key with two versions at or below the safe
  timestamp, the newest a delete marker, compacted without overlap, leaves no version at
  all in the output.
\<close>

theorem CompactTables_drops_newest_tombstone_counterexample:
  "(10 :: 64 word) \<le> SafeTS ex_cd \<and> (5 :: 64 word) \<le> SafeTS ex_cd \<and>
   sorted_keys [(Key [1] 10, ex_del), (Key [1] 5, ex_val)] \<and>
   CompactTables ex_env ex_cd [(Key [1] 10, ex_del), (Key [1] 5, ex_val)] = Inr []"
  by (simp add: ex_defs run_defs cmp_defs)

text \<open>
  Claim C2, as amended.  Under the same conditions, for an input entry \<open>(k, v)\<close> that
  is the newest version of its (non-empty) user key at or below the safe timestamp and
  carries the delete bit: the entry is in the output iff \<open>HasOverlap\<close> holds; with
  \<open>HasOverlap\<close> it occurs exactly once and is the only version of its user key at or
  below the safe timestamp in the output (all older ones are dropped); without
  \<open>HasOverlap\<close> the output holds no record of that user key at or below the safe
  timestamp.
\<close>

theorem CompactTables_tombstone_rule:
  assumes "CompactTables E cd it = Inr out" "sorted_keys it" "(k, v) \<in> set it"
    "UserKey k \<noteq> []" "Version k \<le> SafeTS cd"
    "\<forall>e\<in>set it. UserKey (fst e) = UserKey k \<and> Version (fst e) \<le> SafeTS cd
        \<longrightarrow> Version (fst e) \<le> Version k"
    "isDeleted (Meta v)"
  shows "((k, v) \<in> set (concat (map Rows out)) \<longleftrightarrow> HasOverlap cd) \<and>
         count_list (concat (map Rows out)) (k, v) = (if HasOverlap cd then 1 else 0) \<and>
         filter (below cd (UserKey k)) (concat (map Rows out)) =
           (if HasOverlap cd then [(k, v)] else [])"
proof -
  have f: "filter (below cd (UserKey k)) (concat (map Rows out)) =
           (if HasOverlap cd then [(k, v)] else [])"
    using CompactTables_gc[OF assms(1-6)] assms(5,7) by (simp add: gcOut_def)
  have b: "below cd (UserKey k) (k, v)" using assms(5) by (simp add: below_def)
  have c: "count_list (concat (map Rows out)) (k, v) = (if HasOverlap cd then 1 else 0)"
    using count_list_filter[of "below cd (UserKey k)" "concat (map Rows out)" "(k, v)"] b f
    by (simp split: if_splits)
  have "(k, v) \<in> set (concat (map Rows out)) \<longleftrightarrow> HasOverlap cd"
    using c by (metis count_list_0_iff zero_neq_one)
  with c f show ?thesis by blast
qed

theorem CompactTables_tombstone_rule_witness:
  "CompactTables ex_env (ex_cd\<lparr>HasOverlap := True\<rparr>)
      [(Key [1] 30, ex_val), (Key [1] 10, ex_del), (Key [1] 5, ex_val)]
     = Inr [\<lparr>FileName = Some 100, rSmallest = Key [1] 30, rBiggest = Key [1] 10,
             Rows = [(Key [1] 30, ex_val), (Key [1] 10, ex_del)]\<rparr>] \<and>
   count_list [(Key [1] 30, ex_val), (Key [1] 10, ex_del)] (Key [1] 10, ex_del) = 1"
proof -
  let ?cd = "ex_cd\<lparr>HasOverlap := True\<rparr>"
  let ?it = "[(Key [1] 30, ex_val), (Key [1] 10, ex_del), (Key [1] 5, ex_val)]"
  let ?out = "[\<lparr>FileName = Some 100, rSmallest = Key [1] 30, rBiggest = Key [1] 10,
             Rows = [(Key [1] 30, ex_val), (Key [1] 10, ex_del)]\<rparr>]"
  have run: "CompactTables ex_env ?cd ?it = Inr ?out"
    by (simp add: ex_defs run_defs)
  have srt: "sorted_keys ?it" by (simp add: cmp_defs)
  have mem: "(Key [1] 10, ex_del) \<in> set ?it" by simp
  have ne: "UserKey (Key [1] 10) \<noteq> []" by simp
  have le: "Version (Key [1] 10) \<le> SafeTS ?cd" by (simp add: ex_cd_def)
  have newest: "\<forall>e\<in>set ?it. UserKey (fst e) = UserKey (Key [1] 10) \<and> Version (fst e) \<le> SafeTS ?cd
        \<longrightarrow> Version (fst e) \<le> Version (Key [1] 10)"
    by (simp add: ex_cd_def)
  have del: "isDeleted (Meta ex_del)" by (simp add: ex_del_def isDeleted_def bitDelete_def)
  from CompactTables_tombstone_rule[OF run srt mem ne le newest del] run
  show ?thesis by (simp add: ex_cd_def)
qed

text \<open>
  The claim C2 as first stated speaks of every delete marker at or below the safe
  timestamp.  A delete marker shadowed by a newer version at or below the safe timestamp
  is dropped as an old version although \<open>HasOverlap\<close> holds.
\<close>

theorem CompactTables_shadowed_tombstone_counterexample:
  "(5 :: 64 word) \<le> SafeTS (ex_cd\<lparr>HasOverlap := True\<rparr>) \<and> isDeleted (Meta ex_del) \<and>
   HasOverlap (ex_cd\<lparr>HasOverlap := True\<rparr>) \<and>
   CompactTables ex_env (ex_cd\<lparr>HasOverlap := True\<rparr>) [(Key [1] 10, ex_val), (Key [1] 5, ex_del)]
     = Inr [\<lparr>FileName = Some 100, rSmallest = Key [1] 10, rBiggest = Key [1] 10,
             Rows = [(Key [1] 10, ex_val)]\<rparr>]"
  by (simp add: ex_defs run_defs cmp_defs)

text \<open>
  Claim C3.  \<open>shouldFinishFile\<close> is false whenever the last key is empty or the
  current size does not exceed the maximal size; the inner loop breaks (and the output
  file is finished) only at an entry whose user key differs from the last key; and, for
  an input in key order, no two output tables of one run of \<open>CompactTables\<close> hold the
  same user key.
\<close>

theorem CompactTables_cuts_at_user_key_boundary:
  "(IsEmpty lk \<or> currentSize \<le> maxSize \<longrightarrow> \<not> shouldFinishFile lk currentSize maxSize) \<and>
   (step E cd st (key, vs) = Break st' \<longrightarrow> \<not> SameUserKey key (lastKey st)) \<and>
   (sorted_wrt (\<lambda>a b. Compare (fst a) (fst b) \<le> 0) it \<and> CompactTables E cd it = Inr out \<longrightarrow>
      (\<forall>i<length out. \<forall>j<length out. i \<noteq> j \<longrightarrow>
         userKeys (Rows (out ! i)) \<inter> userKeys (Rows (out ! j)) = {}))"
proof (intro conjI impI)
  assume "IsEmpty lk \<or> currentSize \<le> maxSize"
  then show "\<not> shouldFinishFile lk currentSize maxSize"
    by (auto simp: shouldFinishFile_def)
next
  assume "step E cd st (key, vs) = Break st'"
  from step_Break_boundary[OF this] show "\<not> SameUserKey key (lastKey st)" by simp
next
  assume a: "sorted_wrt (\<lambda>a b. Compare (fst a) (fst b) \<le> 0) it \<and> CompactTables E cd it = Inr out"
  then have "ordered_user_keys it"
    unfolding ordered_user_keys_def by (auto elim: sorted_wrt_mono_rel[rotated] dest: Compare_le)
  with a have "disjoint_tables out" using CompactTables_disjoint by blast
  then show "\<forall>i<length out. \<forall>j<length out. i \<noteq> j \<longrightarrow>
         userKeys (Rows (out ! i)) \<inter> userKeys (Rows (out ! j)) = {}"
    by (simp add: disjoint_tables_def)
qed

theorem CompactTables_cuts_at_user_key_boundary_witness:
  "sorted_wrt (\<lambda>a b. Compare (fst a) (fst b) \<le> 0)
      [(Key [1] 30, ex_val), (Key [1] 10, ex_val), (Key [1] 5, ex_val), (Key [2] 5, ex_val),
       (Key [2] 4, ex_val)] \<and>
   CompactTables ex_env ex_cd
      [(Key [1] 30, ex_val), (Key [1] 10, ex_val), (Key [1] 5, ex_val), (Key [2] 5, ex_val),
       (Key [2] 4, ex_val)]
     = Inr [\<lparr>FileName = Some 100, rSmallest = Key [1] 30, rBiggest = Key [1] 10,
             Rows = [(Key [1] 30, ex_val), (Key [1] 10, ex_val)]\<rparr>,
            \<lparr>FileName = Some 101, rSmallest = Key [2] 5, rBiggest = Key [2] 5,
             Rows = [(Key [2] 5, ex_val)]\<rparr>] \<and>
   userKeys [(Key [1] 30, ex_val), (Key [1] 10, ex_val)] \<inter> userKeys [(Key [2] 5, ex_val)] = {}"
proof -
  let ?it = "[(Key [1] 30, ex_val), (Key [1] 10, ex_val), (Key [1] 5, ex_val), (Key [2] 5, ex_val),
       (Key [2] 4, ex_val)]"
  let ?out = "[\<lparr>FileName = Some 100, rSmallest = Key [1] 30, rBiggest = Key [1] 10,
             Rows = [(Key [1] 30, ex_val), (Key [1] 10, ex_val)]\<rparr>,
            \<lparr>FileName = Some 101, rSmallest = Key [2] 5, rBiggest = Key [2] 5,
             Rows = [(Key [2] 5, ex_val)]\<rparr>]"
  have run: "CompactTables ex_env ex_cd ?it = Inr ?out"
    by (simp add: ex_defs run_defs)
  have srt: "sorted_wrt (\<lambda>a b. Compare (fst a) (fst b) \<le> 0) ?it" by (simp add: Compare_def)
  have "\<forall>i<length ?out. \<forall>j<length ?out. i \<noteq> j \<longrightarrow>
         userKeys (Rows (?out ! i)) \<inter> userKeys (Rows (?out ! j)) = {}"
    using CompactTables_cuts_at_user_key_boundary[of _ _ _ ex_env ex_cd _ _ _ _ ?it ?out] run srt
    by blast
  then have "userKeys (Rows (?out ! 0)) \<inter> userKeys (Rows (?out ! 1)) = {}"
    by (metis One_nat_def length_Cons lessI list.size(3) zero_less_Suc zero_neq_one)
  with run srt show ?thesis by simp
qed

lemmas ex_tbl_defs = ex_table_def ex_range_overlap_def Compare_def ex_cd_def

lemmas ex_apply_defs = ex_apply_env_def ex_level_def ex_shard_def ex_sdb_def ex_table_def ex_cd_def
lemmas apply_defs = applyCompaction_def applyCompaction_body_def compactionUpdateLevelHandler_def
  writeChangeSet_def getLevelHandler_def setLevelHandler_def casLevelHandler_def newLevelHandler_def
  assertTablesOrder_def sortTables_def addEstimatedSize_def markCompacting_def Compare_def

section \<open>Choosing the bottom tables; the move-down\<close>

lemma addIfOverlap_eq:
  "addIfOverlap hasOverlap cd t tops =
     (if \<exists>topTbl\<in>set tops. hasOverlap topTbl (Smallest t) (Biggest t) True
      then (cd\<lparr>Bot := Bot cd @ [t]\<rparr>, True) else (cd, False))"
  by (induction tops) auto

lemma fillBottomTables_Top: "Top (fillBottomTables hasOverlap cd ts) = Top cd"
  by (induction ts arbitrary: cd) (auto simp: addIfOverlap_eq)

text \<open>
  Claim C6.  \<open>fillBottomTables\<close> appends to \<open>SkippedTbls\<close>, in order, exactly the
  tables \<open>b\<close> of the overlap window such that no top table overlaps the key range of
  \<open>b\<close> (end included) and the size of \<open>b\<close> is at least 1 MiB, and appends every other
  table of the window to \<open>Bot\<close>; the threshold \<open>minSkippedTableSize\<close> is 1024 * 1024.
\<close>

theorem fillBottomTables_skips_large_untouched_tables:
  "minSkippedTableSize = 1024 * 1024 \<and>
   SkippedTbls (fillBottomTables hasOverlap cd ts) =
     SkippedTbls cd @
       filter (\<lambda>b. (\<forall>topTbl\<in>set (Top cd). \<not> hasOverlap topTbl (Smallest b) (Biggest b) True)
                   \<and> Size b \<ge> 1024 * 1024) ts \<and>
   Bot (fillBottomTables hasOverlap cd ts) =
     Bot cd @
       filter (\<lambda>b. \<not> ((\<forall>topTbl\<in>set (Top cd). \<not> hasOverlap topTbl (Smallest b) (Biggest b) True)
                   \<and> Size b \<ge> 1024 * 1024)) ts"
proof (induction ts arbitrary: cd)
  case Nil
  then show ?case by (simp add: minSkippedTableSize_def)
next
  case (Cons t ts)
  show ?case
    by (simp add: addIfOverlap_eq Cons.IH minSkippedTableSize_def)
qed

theorem fillBottomTables_skips_large_untouched_tables_witness:
  "SkippedTbls (fillBottomTables ex_range_overlap (ex_cd\<lparr>Top := [ex_table 1 1 2 2097152]\<rparr>)
       [ex_table 2 1 2 3145728, ex_table 3 5 6 100, ex_table 4 8 9 4194304])
     = [ex_table 4 8 9 4194304] \<and>
   Bot (fillBottomTables ex_range_overlap (ex_cd\<lparr>Top := [ex_table 1 1 2 2097152]\<rparr>)
       [ex_table 2 1 2 3145728, ex_table 3 5 6 100, ex_table 4 8 9 4194304])
     = [ex_table 2 1 2 3145728, ex_table 3 5 6 100]"
  using fillBottomTables_skips_large_untouched_tables
    [of ex_range_overlap "ex_cd\<lparr>Top := [ex_table 1 1 2 2097152]\<rparr>"
       "[ex_table 2 1 2 3145728, ex_table 3 5 6 100, ex_table 4 8 9 4194304]"]
  by (simp add: ex_tbl_defs)

text \<open>
  Claim C7.  When the level of a compaction definition is above 0 and both \<open>Bot\<close> and
  \<open>SkippedTbls\<close> are empty, \<open>runCompactionDef\<close> makes a logical move: whatever the
  executor is, it is not run (the engine is handed on as it was, and the result does not
  depend on the executor); the table creates of the change set are the top tables, in
  order, with their ids and key bounds, tagged with the column family and level + 1; the
  top deletes are the ids of the same tables; there are no bottom deletes.  With a
  meta-change listener that change set is what the listener receives; without one it
  is what \<open>applyCompaction\<close> installs.
\<close>

theorem runCompactionDef_moveDown:
  assumes "Level cd > 0" "Bot cd = []" "SkippedTbls cd = []"
  shows "buildCompaction compactBuildTables sdb cf cd =
           (sdb, Inr \<lparr>Cf = word_of_int cf, cLevel = word_of_int (Level cd),
                      TopDeletes = map ID (Top cd), BottomDeletes = [],
                      TableCreates =
                        map (\<lambda>t. \<lparr>tcID = ID t, tcLevel = word_of_int (Level cd + 1),
                                  tcCF = word_of_int cf, tcSmallest = UserKey (Smallest t),
                                  tcBiggest = UserKey (Biggest t)\<rparr>) (Top cd)\<rparr>) \<and>
         (metaChangeListener sdb \<longrightarrow>
            runCompactionDef compactBuildTables env sdb shard cf cd =
              Return (None,
                sdb\<lparr>emitted := emitted sdb @
                  [\<lparr>ShardID = ShID shard, ShardVer = Ver shard, Flush = None,
                    Compaction = Some \<lparr>Cf = word_of_int cf, cLevel = word_of_int (Level cd),
                      TopDeletes = map ID (Top cd), BottomDeletes = [],
                      TableCreates =
                        map (\<lambda>t. \<lparr>tcID = ID t, tcLevel = word_of_int (Level cd + 1),
                                  tcCF = word_of_int cf, tcSmallest = UserKey (Smallest t),
                                  tcBiggest = UserKey (Biggest t)\<rparr>) (Top cd)\<rparr>,
                    SplitFiles = None\<rparr>]\<rparr>,
                shard)) \<and>
         (\<not> metaChangeListener sdb \<longrightarrow>
            runCompactionDef compactBuildTables env sdb shard cf cd =
              applyCompaction env sdb shard
                \<lparr>ShardID = ShID shard, ShardVer = Ver shard, Flush = None,
                 Compaction = Some \<lparr>Cf = word_of_int cf, cLevel = word_of_int (Level cd),
                   TopDeletes = map ID (Top cd), BottomDeletes = [],
                   TableCreates =
                     map (\<lambda>t. \<lparr>tcID = ID t, tcLevel = word_of_int (Level cd + 1),
                               tcCF = word_of_int cf, tcSmallest = UserKey (Smallest t),
                               tcBiggest = UserKey (Biggest t)\<rparr>) (Top cd)\<rparr>,
                 SplitFiles = None\<rparr>)"
  using assms
  by (simp add: buildCompaction_def runCompactionDef_def moveDown_def newTableCreate_def
      newShardChangeSet_def Let_def)

theorem runCompactionDef_moveDown_witness:
  "Level (ex_cd\<lparr>Top := [ex_table 7 1 3 100]\<rparr>) > 0 \<and>
   buildCompaction ex_failing_executor (ex_sdb [ex_table 7 1 3 100]) 0
       (ex_cd\<lparr>Top := [ex_table 7 1 3 100]\<rparr>) =
     (ex_sdb [ex_table 7 1 3 100],
      Inr \<lparr>Cf = 0, cLevel = 1, TopDeletes = [7], BottomDeletes = [],
           TableCreates = [\<lparr>tcID = 7, tcLevel = 2, tcCF = 0, tcSmallest = [1],
                            tcBiggest = [3]\<rparr>]\<rparr>) \<and>
   runCompactionDef ex_failing_executor ex_apply_env (ex_sdb [ex_table 7 1 3 100])
       (ex_shard [ex_table 7 1 3 100] []) 0 (ex_cd\<lparr>Top := [ex_table 7 1 3 100]\<rparr>) =
     Return (None,
       (ex_sdb [ex_table 7 1 3 100])
         \<lparr>manifest :=
            [\<lparr>ShardID = 1, ShardVer = 1, Flush = None,
              Compaction =
                Some \<lparr>Cf = 0, cLevel = 1, TopDeletes = [7], BottomDeletes = [],
                      TableCreates = [\<lparr>tcID = 7, tcLevel = 2, tcCF = 0, tcSmallest = [1],
                                       tcBiggest = [3]\<rparr>]\<rparr>,
              SplitFiles = None\<rparr>]\<rparr>,
       (ex_shard [] [ex_table 7 1 3 100])\<lparr>compacting := False\<rparr>)"
proof -
  let ?cd = "ex_cd\<lparr>Top := [ex_table 7 1 3 100]\<rparr>"
  have lv: "Level ?cd > 0" and bot: "Bot ?cd = []" and sk: "SkippedTbls ?cd = []"
    by (simp_all add: ex_cd_def)
  have bc: "buildCompaction ex_failing_executor (ex_sdb [ex_table 7 1 3 100]) 0 ?cd =
     (ex_sdb [ex_table 7 1 3 100],
      Inr \<lparr>Cf = 0, cLevel = 1, TopDeletes = [7], BottomDeletes = [],
           TableCreates = [\<lparr>tcID = 7, tcLevel = 2, tcCF = 0, tcSmallest = [1],
                            tcBiggest = [3]\<rparr>]\<rparr>)"
    using runCompactionDef_moveDown[OF lv bot sk, of ex_failing_executor
        "ex_sdb [ex_table 7 1 3 100]" 0]
    by (simp add: ex_cd_def ex_table_def)
  show ?thesis
    using lv bc
    by (simp add: runCompactionDef_def newShardChangeSet_def ex_apply_defs apply_defs
        del_collect_def del_add_def del_remove_def)
qed

section \<open>The order of a level, failed swaps, duplicates and priorities\<close>




lemma getLevelHandler_addEstimatedSize [simp]:
  "getLevelHandler (addEstimatedSize shard d) cf lvl = getLevelHandler shard cf lvl"
  by (simp add: getLevelHandler_def addEstimatedSize_def)





text \<open>
  Claim C5 says that a failed compare-and-swap of a level-handler slot aborts the whole
  install.  \<open>compactionUpdateLevelHandler\<close> drops the answer of
  \<open>casLevelHandler\<close>, so the install goes on.  Here another writer has republished
  level 1 before the first compare-and-swap: the install returns nil, level 1 still
  holds table 1, level 2 holds the new table 3 in place of table 2, and tables 1 and 2
  are both handed to the reclaimer.
\<close>

theorem applyCompaction_installs_after_failed_cas:
  "applyCompaction
     (ex_apply_env\<lparr>races := (\<lambda>n. if n = 0 then Some (ex_level 1 [ex_table 1 1 5 100]) else None)\<rparr>)
     (ex_sdb [ex_table 3 1 6 150]) (ex_shard [ex_table 1 1 5 100] [ex_table 2 2 6 100]) ex_change
   = Return (None,
       (ex_sdb [ex_table 3 1 6 150])\<lparr>manifest := [ex_change], reclaimed := [1, 2]\<rparr>,
       (ex_shard [ex_table 1 1 5 100] [ex_table 3 1 6 150])
          \<lparr>compacting := False, estimatedShardSize := 150\<rparr>)"
  by (simp add: ex_apply_defs apply_defs del_collect_def del_add_def del_remove_def ex_change_def)

lemma update_keeps_Ver:
  "compactionUpdateLevelHandler env n sdb shard cf lvl creates delIDs del = Return (e, shard1, del1)
   \<Longrightarrow> Ver shard1 = Ver shard"
  by (auto simp: compactionUpdateLevelHandler_def Let_def casLevelHandler_def setLevelHandler_def
      addEstimatedSize_def split: option.splits sum.splits prod.splits outcome.splits)

lemma updateAllCFs_keeps_Ver:
  "updateAllCFs env sdb c cfl shard del = Return (e, shard1, del1) \<Longrightarrow> Ver shard1 = Ver shard"
proof (induction cfl arbitrary: shard del)
  case Nil
  then show ?case by simp
next
  case (Cons cf rest)
  show ?case
  proof (cases "compactionUpdateLevelHandler env cf sdb shard (int cf) 1 (TableCreates c)
             (BottomDeletes c) del")
    case Panic
    with Cons.prems show ?thesis by simp
  next
    case (Return r)
    obtain e' s' d' where r: "r = (e', s', d')" by (cases r)
    from update_keeps_Ver[OF Return[unfolded r]] have v: "Ver s' = Ver shard" .
    show ?thesis
    proof (cases e')
      case None
      with Cons.prems Return r have "updateAllCFs env sdb c rest s' d' = Return (e, shard1, del1)"
        by simp
      from Cons.IH[OF this] v show ?thesis by simp
    next
      case (Some a)
      with Cons.prems Return r v show ?thesis by simp
    qed
  qed
qed

lemma applyCompaction_body_facts:
  assumes "applyCompaction_body env sdb shard cs = Return (e, sdb1, shard1)"
  shows "Ver shard1 = Ver shard \<and> shardMap sdb1 = shardMap sdb \<and> hasS3 sdb1 = hasS3 sdb \<and>
         Compaction cs \<noteq> None \<and> (e = None \<longrightarrow> cs \<in> set (manifest sdb1))"
proof -
  obtain c where c: "Compaction cs = Some c"
    using assms by (auto simp: applyCompaction_body_def split: option.splits)
  show ?thesis
  proof (cases "hasS3 sdb \<and> s3LoadFails env")
    case True
    with assms c show ?thesis by (auto simp: applyCompaction_body_def)
  next
    case s3ok: False
    show ?thesis
    proof (cases "cs \<in> set (manifest sdb)")
      case True
      with assms c s3ok show ?thesis
        by (auto simp: applyCompaction_body_def writeChangeSet_def)
    next
      case nodup: False
      show ?thesis
      proof (cases "manifestWriteFails env")
        case True
        with assms c s3ok nodup show ?thesis
          by (auto simp: applyCompaction_body_def writeChangeSet_def)
      next
        case False
        let ?sdb1 = "sdb\<lparr>manifest := manifest sdb @ [cs]\<rparr>"
        show ?thesis
        proof (cases "cLevel c = 0")
          case True
          from assms c s3ok nodup False True
          have "\<exists>s d. updateAllCFs env ?sdb1 c [0 ..< numCFs ?sdb1] shard [] = Return (e, s, d) \<and>
                  ((e \<noteq> None \<and> sdb1 = ?sdb1 \<and> shard1 = s) \<or>
                   (e = None \<and> (\<exists>s2 r. atomicRemoveL0 s (length (TopDeletes c)) = Some (s2, r) \<and>
                       sdb1 = ?sdb1\<lparr>reclaimed := reclaimed ?sdb1 @ del_collect d\<rparr> \<and>
                       shard1 = addEstimatedSize s2 (- r))))"
            by (auto simp: applyCompaction_body_def writeChangeSet_def Let_def
                split: outcome.splits option.splits prod.splits)
          then obtain s d where u: "updateAllCFs env ?sdb1 c [0 ..< numCFs ?sdb1] shard [] = Return (e, s, d)"
            and r: "(e \<noteq> None \<and> sdb1 = ?sdb1 \<and> shard1 = s) \<or>
                   (e = None \<and> (\<exists>s2 r. atomicRemoveL0 s (length (TopDeletes c)) = Some (s2, r) \<and>
                       sdb1 = ?sdb1\<lparr>reclaimed := reclaimed ?sdb1 @ del_collect d\<rparr> \<and>
                       shard1 = addEstimatedSize s2 (- r)))" by blast
          from updateAllCFs_keeps_Ver[OF u] have "Ver s = Ver shard" .
          with r c show ?thesis
            by (auto simp: atomicRemoveL0_def addEstimatedSize_def split: if_splits)
        next
          case lvl: False
          from assms c s3ok nodup False lvl
          have "\<exists>e1 s1 d1. compactionUpdateLevelHandler env 0 ?sdb1 shard (sint (Cf c))
                           (uint (cLevel c)) [] (TopDeletes c) [] = Return (e1, s1, d1) \<and>
                  ((e1 \<noteq> None \<and> e = e1 \<and> sdb1 = ?sdb1 \<and> shard1 = s1) \<or>
                   (e1 = None \<and> (\<exists>d2. compactionUpdateLevelHandler env 1 ?sdb1 s1 (sint (Cf c))
                                (uint (cLevel c + 1)) (TableCreates c) (BottomDeletes c)
                                (removeCreated (TableCreates c) d1) = Return (e, shard1, d2) \<and>
                       (sdb1 = ?sdb1 \<or> sdb1 = ?sdb1\<lparr>reclaimed := reclaimed ?sdb1 @ del_collect d2\<rparr>))))"
            by (auto simp: applyCompaction_body_def writeChangeSet_def Let_def
                split: outcome.splits option.splits prod.splits)
          then obtain e1 s1 d1 where u1: "compactionUpdateLevelHandler env 0 ?sdb1 shard (sint (Cf c))
                           (uint (cLevel c)) [] (TopDeletes c) [] = Return (e1, s1, d1)"
            and r: "(e1 \<noteq> None \<and> e = e1 \<and> sdb1 = ?sdb1 \<and> shard1 = s1) \<or>
                   (e1 = None \<and> (\<exists>d2. compactionUpdateLevelHandler env 1 ?sdb1 s1 (sint (Cf c))
                                (uint (cLevel c + 1)) (TableCreates c) (BottomDeletes c)
                                (removeCreated (TableCreates c) d1) = Return (e, shard1, d2) \<and>
                       (sdb1 = ?sdb1 \<or> sdb1 = ?sdb1\<lparr>reclaimed := reclaimed ?sdb1 @ del_collect d2\<rparr>)))"
            by blast
          from update_keeps_Ver[OF u1] have v1: "Ver s1 = Ver shard" .
          from r show ?thesis
          proof
            assume "e1 \<noteq> None \<and> e = e1 \<and> sdb1 = ?sdb1 \<and> shard1 = s1"
            with v1 c show ?thesis by auto
          next
            assume "e1 = None \<and> (\<exists>d2. compactionUpdateLevelHandler env 1 ?sdb1 s1 (sint (Cf c))
                                (uint (cLevel c + 1)) (TableCreates c) (BottomDeletes c)
                                (removeCreated (TableCreates c) d1) = Return (e, shard1, d2) \<and>
                       (sdb1 = ?sdb1 \<or> sdb1 = ?sdb1\<lparr>reclaimed := reclaimed ?sdb1 @ del_collect d2\<rparr>))"
            then obtain d2 where u2: "compactionUpdateLevelHandler env 1 ?sdb1 s1 (sint (Cf c))
                                (uint (cLevel c + 1)) (TableCreates c) (BottomDeletes c)
                                (removeCreated (TableCreates c) d1) = Return (e, shard1, d2)"
              and s: "sdb1 = ?sdb1 \<or> sdb1 = ?sdb1\<lparr>reclaimed := reclaimed ?sdb1 @ del_collect d2\<rparr>"
              by blast
            from update_keeps_Ver[OF u2] v1 have "Ver shard1 = Ver shard" by simp
            with s c show ?thesis by auto
          qed
        qed
      qed
    qed
  qed
qed

lemma applyCompaction_facts:
  assumes "applyCompaction env sdb shard cs = Return (e, sdb1, shard1)"
  shows "Ver shard1 = Ver shard \<and> shardMap sdb1 = shardMap sdb \<and> hasS3 sdb1 = hasS3 sdb \<and>
         Compaction cs \<noteq> None \<and> (e = None \<longrightarrow> cs \<in> set (manifest sdb1)) \<and> \<not> compacting shard1"
proof -
  from assms obtain s where b: "applyCompaction_body env sdb shard cs = Return (e, sdb1, s)"
    and s: "shard1 = markCompacting s False"
    by (auto simp: applyCompaction_def split: outcome.splits)
  from applyCompaction_body_facts[OF b] s show ?thesis
    by (simp add: markCompacting_def)
qed

lemma applyCompaction_on_duplicate:
  assumes "Compaction cs \<noteq> None" "cs \<in> set (manifest sdb)"
  shows "applyCompaction env sdb shard cs =
     Return (if hasS3 sdb \<and> s3LoadFails env then Some errS3 else None, sdb,
             shard\<lparr>compacting := False\<rparr>)"
  using assms
  by (auto simp: applyCompaction_def applyCompaction_body_def writeChangeSet_def markCompacting_def)

lemma clear_compacting_idem: "\<not> compacting s \<Longrightarrow> s\<lparr>compacting := False\<rparr> = s"
  by (cases s) simp

text \<open>
  Claim C9, as amended.  Applying a compaction change set that the manifest already
  records changes nothing but the compacting flag of the shard, which is cleared: when an
  object-storage client is configured and the load of the created files fails, the
  applier returns that error; otherwise it finds the duplicate record and returns nil.
  So when a compaction change set has been applied with success, applying the same
  change set again leaves the engine and the shard as they are (every level handler, the
  level-0 pool, the manifest and the reclaimed resources) and returns nil unless the
  load from object storage, which comes before the duplicate check, fails.  This holds
  for \<open>applyCompaction\<close> and for \<open>ApplyChangeSet\<close> on a compaction change set.
\<close>

theorem duplicate_change_set_is_no_op:
  "(cs \<in> set (manifest sdb) \<and> Compaction cs \<noteq> None
    \<longrightarrow> applyCompaction env sdb shard cs =
          Return (if hasS3 sdb \<and> s3LoadFails env then Some errS3 else None, sdb,
                  shard\<lparr>compacting := False\<rparr>)) \<and>
   (applyCompaction env sdb shard cs = Return (None, sdb1, shard1)
    \<longrightarrow> applyCompaction env2 sdb1 shard1 cs =
          Return (if hasS3 sdb1 \<and> s3LoadFails env2 then Some errS3 else None, sdb1, shard1)) \<and>
   (ApplyChangeSet applyFlush applySplitFiles env sdb cs = Return (None, sdb1) \<and>
      Flush cs = None \<and> Compaction cs \<noteq> None
    \<longrightarrow> ApplyChangeSet applyFlush applySplitFiles env2 sdb1 cs =
          Return (if hasS3 sdb1 \<and> s3LoadFails env2 then Some errS3 else None, sdb1))"
proof (intro conjI impI)
  assume "cs \<in> set (manifest sdb) \<and> Compaction cs \<noteq> None"
  then show "applyCompaction env sdb shard cs =
          Return (if hasS3 sdb \<and> s3LoadFails env then Some errS3 else None, sdb,
                  shard\<lparr>compacting := False\<rparr>)"
    using applyCompaction_on_duplicate by blast
next
  assume a: "applyCompaction env sdb shard cs = Return (None, sdb1, shard1)"
  note f = applyCompaction_facts[OF a]
  from f have "Compaction cs \<noteq> None" "cs \<in> set (manifest sdb1)" "\<not> compacting shard1" by auto
  then show "applyCompaction env2 sdb1 shard1 cs =
          Return (if hasS3 sdb1 \<and> s3LoadFails env2 then Some errS3 else None, sdb1, shard1)"
    using applyCompaction_on_duplicate[of cs sdb1 env2 shard1] clear_compacting_idem[of shard1]
    by simp
next
  assume a: "ApplyChangeSet applyFlush applySplitFiles env sdb cs = Return (None, sdb1) \<and>
      Flush cs = None \<and> Compaction cs \<noteq> None"
  then obtain shard where sh: "shardMap sdb (ShardID cs) = Some shard"
    by (auto simp: ApplyChangeSet_def split: option.splits)
  from a sh have ver: "Ver shard = ShardVer cs"
    by (auto simp: ApplyChangeSet_def split: if_splits)
  from a sh ver obtain sdb' shard1 where
    ac: "applyCompaction env sdb shard cs = Return (None, sdb', shard1)"
    and s1: "sdb1 = sdb'\<lparr>shardMap := (shardMap sdb')(ShardID cs \<mapsto> shard1)\<rparr>"
    by (auto simp: ApplyChangeSet_def split: outcome.splits)
  note f = applyCompaction_facts[OF ac]
  have m: "shardMap sdb1 (ShardID cs) = Some shard1" by (simp add: s1)
  have "cs \<in> set (manifest sdb1)" using f by (simp add: s1)
  with a have dup: "applyCompaction env2 sdb1 shard1 cs =
      Return (if hasS3 sdb1 \<and> s3LoadFails env2 then Some errS3 else None, sdb1, shard1)"
    using applyCompaction_on_duplicate[of cs sdb1 env2 shard1] clear_compacting_idem[of shard1] f
    by simp
  have idem: "sdb1\<lparr>shardMap := (shardMap sdb1)(ShardID cs \<mapsto> shard1)\<rparr> = sdb1"
    by (simp add: s1)
  from f have "Ver shard1 = ShardVer cs" using ver by simp
  with a m dup idem show "ApplyChangeSet applyFlush applySplitFiles env2 sdb1 cs =
          Return (if hasS3 sdb1 \<and> s3LoadFails env2 then Some errS3 else None, sdb1)"
    by (simp add: ApplyChangeSet_def)
qed

theorem duplicate_change_set_is_no_op_witness:
  "applyCompaction ex_apply_env (ex_sdb [ex_table 3 1 6 150])
       (ex_shard [ex_table 1 1 5 100] [ex_table 2 2 6 100]) ex_change
     = Return (None,
         (ex_sdb [ex_table 3 1 6 150])\<lparr>manifest := [ex_change], reclaimed := [1, 2]\<rparr>,
         (ex_shard [] [ex_table 3 1 6 150])\<lparr>compacting := False, estimatedShardSize := 150\<rparr>) \<and>
   applyCompaction ex_apply_env
       ((ex_sdb [ex_table 3 1 6 150])\<lparr>manifest := [ex_change], reclaimed := [1, 2]\<rparr>)
       ((ex_shard [] [ex_table 3 1 6 150])\<lparr>compacting := False, estimatedShardSize := 150\<rparr>)
       ex_change
     = Return (None,
         (ex_sdb [ex_table 3 1 6 150])\<lparr>manifest := [ex_change], reclaimed := [1, 2]\<rparr>,
         (ex_shard [] [ex_table 3 1 6 150])\<lparr>compacting := False, estimatedShardSize := 150\<rparr>)"
proof -
  have first: "applyCompaction ex_apply_env (ex_sdb [ex_table 3 1 6 150])
       (ex_shard [ex_table 1 1 5 100] [ex_table 2 2 6 100]) ex_change
     = Return (None,
         (ex_sdb [ex_table 3 1 6 150])\<lparr>manifest := [ex_change], reclaimed := [1, 2]\<rparr>,
         (ex_shard [] [ex_table 3 1 6 150])\<lparr>compacting := False, estimatedShardSize := 150\<rparr>)"
    by (simp add: ex_apply_defs apply_defs del_collect_def del_add_def del_remove_def ex_change_def)
  from duplicate_change_set_is_no_op[THEN conjunct2, THEN conjunct1, rule_format, OF first, of ex_apply_env] first
  show ?thesis by (simp add: ex_sdb_def ex_apply_env_def)
qed

text \<open>
  The claim C9 as first stated fails: with an object-storage client configured, the
  second application of a change set applied with success returns an error when the load
  from object storage fails, before the duplicate record is looked for.
\<close>

theorem duplicate_apply_fails_on_s3_preload_counterexample:
  "applyCompaction ex_apply_env ((ex_sdb [ex_table 3 1 6 150])\<lparr>hasS3 := True\<rparr>)
       (ex_shard [ex_table 1 1 5 100] [ex_table 2 2 6 100]) ex_change
     = Return (None,
         (ex_sdb [ex_table 3 1 6 150])\<lparr>hasS3 := True, manifest := [ex_change], reclaimed := [1, 2]\<rparr>,
         (ex_shard [] [ex_table 3 1 6 150])\<lparr>compacting := False, estimatedShardSize := 150\<rparr>) \<and>
   applyCompaction (ex_apply_env\<lparr>s3LoadFails := True\<rparr>)
       ((ex_sdb [ex_table 3 1 6 150])\<lparr>hasS3 := True, manifest := [ex_change], reclaimed := [1, 2]\<rparr>)
       ((ex_shard [] [ex_table 3 1 6 150])\<lparr>compacting := False, estimatedShardSize := 150\<rparr>)
       ex_change
     = Return (Some errS3,
         (ex_sdb [ex_table 3 1 6 150])\<lparr>hasS3 := True, manifest := [ex_change], reclaimed := [1, 2]\<rparr>,
         (ex_shard [] [ex_table 3 1 6 150])\<lparr>compacting := False, estimatedShardSize := 150\<rparr>)"
  by (simp add: ex_apply_defs apply_defs del_collect_def del_add_def del_remove_def ex_change_def)

lemma collectPriorities_eq:
  "collectPriorities gp shards =
     map gp (filter (\<lambda>s. \<not> isPassive s \<and> \<not> compacting s \<and> Score (gp s) > 1) shards)"
  by (induction shards) (auto simp: Let_def)

lemma mset_insertBy: "mset (insertBy lt x ys) = add_mset x (mset ys)"
  by (induction ys) auto

lemma mset_insertionSort: "mset (insertionSort lt xs) = mset xs"
  by (induction xs) (auto simp: mset_insertBy)

lemma set_insertBy: "set (insertBy lt x ys) = insert x (set ys)"
  by (induction ys) auto

lemma sorted_insertBy_Score:
  "sorted_wrt (\<lambda>a b. Score a \<ge> Score b) ys \<Longrightarrow>
   sorted_wrt (\<lambda>a b. Score a \<ge> Score b) (insertBy (\<lambda>a b. Score a > Score b) x ys)"
  by (induction ys) (auto simp: set_insertBy)

lemma sorted_insertionSort_Score:
  "sorted_wrt (\<lambda>a b. Score a \<ge> Score b) (insertionSort (\<lambda>a b. Score a > Score b) xs)"
  by (induction xs) (auto simp: sorted_insertBy_Score)

text \<open>
  Claim C8, as amended.  For a \<open>sort.Slice\<close> that returns a permutation of its
  argument in the order of the comparison, \<open>GetCompactionPriorities\<close> returns exactly
  the priorities of the shards with a score above 1 that are not passive and not
  compacting, sorted by score descending.  Whether a shard is splitting is not looked at
  here, and nothing more is said about the order among equal scores.
\<close>

theorem GetCompactionPriorities_eligible_sorted:
  assumes "\<forall>xs. mset (srt (\<lambda>a b. Score a > Score b) xs) = mset xs \<and>
                sorted_wrt (\<lambda>a b. Score a \<ge> Score b) (srt (\<lambda>a b. Score a > Score b) xs)"
  shows "mset (GetCompactionPriorities srt gp shards) =
           mset (map gp (filter (\<lambda>s. Score (gp s) > 1 \<and> \<not> isPassive s \<and> \<not> compacting s) shards)) \<and>
         sorted_wrt (\<lambda>a b. Score a \<ge> Score b) (GetCompactionPriorities srt gp shards)"
proof -
  have "(\<lambda>s. \<not> isPassive s \<and> \<not> compacting s \<and> Score (gp s) > 1) =
        (\<lambda>s. Score (gp s) > 1 \<and> \<not> isPassive s \<and> \<not> compacting s)" by auto
  with assms show ?thesis
    by (simp add: GetCompactionPriorities_def collectPriorities_eq)
qed

theorem GetCompactionPriorities_eligible_sorted_witness:
  "GetCompactionPriorities insertionSort ex_priority
     [ex_shard [] [] \<lparr>compacting := False\<rparr>,
      ex_shard [] [] \<lparr>ShID := 2, compacting := False, isPassive := True\<rparr>,
      ex_shard [] [] \<lparr>ShID := 3, compacting := False\<rparr>,
      ex_shard [] [] \<lparr>ShID := 4, compacting := False\<rparr>]
   = [ex_priority (ex_shard [] [] \<lparr>ShID := 3, compacting := False\<rparr>),
      ex_priority (ex_shard [] [] \<lparr>compacting := False\<rparr>)] \<and>
   sorted_wrt (\<lambda>a b. Score a \<ge> Score b)
     (GetCompactionPriorities insertionSort ex_priority
       [ex_shard [] [] \<lparr>compacting := False\<rparr>,
        ex_shard [] [] \<lparr>ShID := 2, compacting := False, isPassive := True\<rparr>,
        ex_shard [] [] \<lparr>ShID := 3, compacting := False\<rparr>,
        ex_shard [] [] \<lparr>ShID := 4, compacting := False\<rparr>])"
proof -
  have c: "\<forall>xs. mset (insertionSort (\<lambda>a b. Score a > Score b) xs) = mset xs \<and>
                sorted_wrt (\<lambda>a b. Score a \<ge> Score b) (insertionSort (\<lambda>a b. Score a > Score b) xs)"
    by (simp add: mset_insertionSort sorted_insertionSort_Score)
  have run: "GetCompactionPriorities insertionSort ex_priority
     [ex_shard [] [] \<lparr>compacting := False\<rparr>,
      ex_shard [] [] \<lparr>ShID := 2, compacting := False, isPassive := True\<rparr>,
      ex_shard [] [] \<lparr>ShID := 3, compacting := False\<rparr>,
      ex_shard [] [] \<lparr>ShID := 4, compacting := False\<rparr>]
   = [ex_priority (ex_shard [] [] \<lparr>ShID := 3, compacting := False\<rparr>),
      ex_priority (ex_shard [] [] \<lparr>compacting := False\<rparr>)]"
    by (simp add: GetCompactionPriorities_def ex_priority_def ex_shard_def Let_def)
  from GetCompactionPriorities_eligible_sorted[where srt = insertionSort and gp = ex_priority, OF c] run
  show ?thesis by blast
qed

text \<open>
  The claim C8 as first stated fails: a splitting shard with a score above 1 that is
  neither passive nor compacting is returned.
\<close>

theorem GetCompactionPriorities_returns_splitting_shard_counterexample:
  "isSplitting (ex_shard [] [] \<lparr>compacting := False, isSplitting := True\<rparr>) \<and>
   GetCompactionPriorities insertionSort ex_priority
     [ex_shard [] [] \<lparr>compacting := False, isSplitting := True\<rparr>]
   = [ex_priority (ex_shard [] [] \<lparr>compacting := False, isSplitting := True\<rparr>)]"
  by (simp add: GetCompactionPriorities_def ex_priority_def ex_shard_def Let_def)

section \<open>Write batches: Put and Delete\<close>

lemma wb_inv_NewWriteBatch: "wb_inv (NewWriteBatch cfgs)"
  by (simp add: wb_inv_def NewWriteBatch_def)

lemma wb_inv_Put:
  "wb_inv wb \<Longrightarrow> Put es ens grow wb cf key val = Return (r, wb') \<Longrightarrow> wb_inv wb'"
  by (auto simp: wb_inv_def Put_def allocEntry_def Let_def split: if_splits)

lemma wb_inv_Delete:
  "wb_inv wb \<Longrightarrow> Delete ens grow wb cf key version = Return (r, wb') \<Longrightarrow> wb_inv wb'"
  by (auto simp: wb_inv_def Delete_def allocEntry_def Let_def split: if_splits)

text \<open>
  Claim C10.  For a batch in the shape above and a column family index in range,
  \<open>Put\<close> and \<open>Delete\<close> behave alike: when the column family is managed and the
  version is zero, or it is not managed and the version is not zero, the call returns an
  error and the batch is unchanged (no entry appended, the estimated size as before);
  otherwise the call returns nil and exactly one entry, holding the given key and value
  (for \<open>Delete\<close> a tombstone of the given version), is appended to the entries of that
  column family, the entries of every other column family staying as they were.
\<close>

theorem WriteBatch_Put_Delete_version_check:
  assumes "wb_inv wb"
  shows "(0 \<le> cf \<and> nat cf < length (cfConfs wb) \<longrightarrow>
         (if (Managed (cfConfs wb ! nat cf) \<and> VVersion val = 0) \<or>
             (\<not> Managed (cfConfs wb ! nat cf) \<and> VVersion val \<noteq> 0)
          then \<exists>msg. Put es ens grow wb cf key val = Return (Some msg, wb)
          else \<exists>wb'. Put es ens grow wb cf key val = Return (None, wb') \<and>
                 entries wb' = (entries wb)[nat cf := entries wb ! nat cf @ [(key, val)]])) \<and>
        (unat dcf < length (cfConfs wb) \<longrightarrow>
         (if (Managed (cfConfs wb ! unat dcf) \<and> version = 0) \<or>
             (\<not> Managed (cfConfs wb ! unat dcf) \<and> version \<noteq> 0)
          then \<exists>msg. Delete ens grow wb dcf key version = Return (Some msg, wb)
          else \<exists>wb'. Delete ens grow wb dcf key version = Return (None, wb') \<and>
                 entries wb' = (entries wb)[unat dcf := entries wb ! unat dcf @
                   [(key, \<lparr>Meta = bitDelete, UserMeta = [], Value = [], VVersion = version\<rparr>)]]))"
  using assms
  by (auto simp: wb_inv_def Put_def Delete_def allocEntry_def Let_def zeroValueStruct_def)

theorem WriteBatch_Put_Delete_version_check_witness:
  "wb_inv (NewWriteBatch [\<lparr>Managed = True\<rparr>, \<lparr>Managed = False\<rparr>]) \<and>
   (\<exists>msg. Put (\<lambda>v. 10) 20 3 (NewWriteBatch [\<lparr>Managed = True\<rparr>, \<lparr>Managed = False\<rparr>]) 0 [1, 2]
            zeroValueStruct
          = Return (Some msg, NewWriteBatch [\<lparr>Managed = True\<rparr>, \<lparr>Managed = False\<rparr>])) \<and>
   (\<exists>wb'. Delete 20 3 (NewWriteBatch [\<lparr>Managed = True\<rparr>, \<lparr>Managed = False\<rparr>]) 0 [1, 2] 7
          = Return (None, wb') \<and>
        entries wb' =
          [[([1, 2], \<lparr>Meta = bitDelete, UserMeta = [], Value = [], VVersion = 7\<rparr>)], []])"
  using WriteBatch_Put_Delete_version_check
    [OF wb_inv_NewWriteBatch [of "[\<lparr>Managed = True\<rparr>, \<lparr>Managed = False\<rparr>]"],
       where cf = 0 and val = zeroValueStruct and es = "\<lambda>v. 10" and ens = 20 and grow = 3
       and key = "[1, 2]" and dcf = 0 and version = 7]
  by (simp add: wb_inv_def NewWriteBatch_def zeroValueStruct_def)

end
